theory Spec2Isabelle
  imports Complex_Main "HOL-Library.Word" "HOL-Library.Log_Nat"
begin

section \<open>Numbers, strings and phoneme events\<close>

text \<open>
  A JavaScript string is a sequence of UTF-16 code units; the regular expressions of
  the source carry no \<^verbatim>\<open>u\<close> flag, so they match code unit by code unit, and
  \<^verbatim>\<open>text[i]\<close> reads one code unit. A finite JavaScript number is a real; the three
  non-finite values are kept apart where the source tests for them. The phoneme scheduler,
  the lip-sync timer and the blend layers are modelled in exact arithmetic. The two blink
  machines compare a running sum with a threshold, and the statements about them depend
  on the frame at which a phase ends, which the rounding of each operation decides; their
  arithmetic is modelled in binary64 (next subsection).
  Blend-shape names are plain ASCII identifiers and are modelled by HOL strings.
\<close>

type_synonym code_unit = "16 word"
type_synonym jsstring = "code_unit list"

datatype jsnum = Num real | PosInfinity | NegInfinity | NaN

record phoneme =
  shape :: "string option"
  weight :: real
  duration :: real

text \<open>The comparison \<^verbatim>\<open>x > 0\<close> on a JavaScript number.\<close>

fun js_gt0 :: "jsnum \<Rightarrow> bool" where
  "js_gt0 (Num d) = (0 < d)"
| "js_gt0 PosInfinity = True"
| "js_gt0 NegInfinity = False"
| "js_gt0 NaN = False"

subsection \<open>Binary64 rounding\<close>

text \<open>
  \<open>fl x\<close> is the IEEE 754 double nearest to the real \<open>x\<close>, ties going to the even
  significand: the result of a JavaScript operation whose exact result is \<open>x\<close>, and the
  value of a decimal literal that denotes \<open>x\<close>. \<open>binade x\<close> is the exponent of the
  power of two at or below \<open>\<bar>x\<bar>\<close>; a double has 53 significant bits, so the doubles
  around \<open>x\<close> are the multiples of \<open>2 powi ulp_exp x\<close>, and not finer than
  \<open>2 powi - 1074\<close> (the subnormal numbers). \<open>rne\<close> rounds to the nearest integer, a
  tie to the even one. Overflow to infinity (results of \<open>2 powi 1024\<close> and beyond) is not
  modelled; with \<^verbatim>\<open>Math.random()\<close> below 1 the numbers of the blink machines stay
  below 8.
\<close>

definition binade :: "real \<Rightarrow> int" where
  "binade x = (if 1 \<le> \<bar>x\<bar> then bitlen \<lfloor>\<bar>x\<bar>\<rfloor> - 1 else - bitlen (\<lceil>1 / \<bar>x\<bar>\<rceil> - 1))"

definition rne :: "real \<Rightarrow> int" where
  "rne y =
     (let f = \<lfloor>y\<rfloor>; r = y - of_int f
      in if r < 1 / 2 then f else if 1 / 2 < r then f + 1 else if even f then f else f + 1)"

definition ulp_exp :: "real \<Rightarrow> int" where
  "ulp_exp x = max (binade x - 52) (- 1074)"

definition fl :: "real \<Rightarrow> real" where
  "fl x = (if x = 0 then 0 else of_int (rne (x / 2 powi ulp_exp x)) * 2 powi ulp_exp x)"

subsection \<open>Character classes of the regular expressions\<close>

text \<open>
  \<^verbatim>\<open>\s\<close> of ECMAScript: TAB, LF, VT, FF, CR, SP, NBSP, U+1680, U+2000..U+200A,
  U+2028, U+2029, U+202F, U+205F, U+3000, U+FEFF.
\<close>

definition is_space :: "code_unit \<Rightarrow> bool" where
  "is_space c \<longleftrightarrow>
     c = 0x09 \<or> c = 0x0A \<or> c = 0x0B \<or> c = 0x0C \<or> c = 0x0D \<or> c = 0x20 \<or> c = 0xA0 \<or>
     c = 0x1680 \<or> (0x2000 \<le> c \<and> c \<le> 0x200A) \<or> c = 0x2028 \<or> c = 0x2029 \<or>
     c = 0x202F \<or> c = 0x205F \<or> c = 0x3000 \<or> c = 0xFEFF"

text \<open>The class \<^verbatim>\<open>[.,!?~\<dots>]\<close> (the last character is U+2026, the ellipsis).\<close>

definition is_long :: "code_unit \<Rightarrow> bool" where
  "is_long c \<longleftrightarrow>
     c = 0x2E \<or> c = 0x2C \<or> c = 0x21 \<or> c = 0x3F \<or> c = 0x7E \<or> c = 0x2026"

text \<open>The class \<^verbatim>\<open>[.,!?~\<dots>\-;:'"()]\<close> of main.js (no white space in it).\<close>

definition is_punct :: "code_unit \<Rightarrow> bool" where
  "is_punct c \<longleftrightarrow>
     is_long c \<or> c = 0x2D \<or> c = 0x3B \<or> c = 0x3A \<or> c = 0x27 \<or> c = 0x22 \<or>
     c = 0x28 \<or> c = 0x29"

text \<open>The class \<^verbatim>\<open>[\s.,!?~\<dots>\-;:'"()]\<close> of the tokenizer.\<close>

definition is_sep :: "code_unit \<Rightarrow> bool" where
  "is_sep c \<longleftrightarrow> is_space c \<or> is_punct c"

text \<open>The class \<^verbatim>\<open>[aeiouyAEIOUY]\<close>.\<close>

definition is_vowel :: "code_unit \<Rightarrow> bool" where
  "is_vowel c \<longleftrightarrow>
     c = 0x61 \<or> c = 0x65 \<or> c = 0x69 \<or> c = 0x6F \<or> c = 0x75 \<or> c = 0x79 \<or>
     c = 0x41 \<or> c = 0x45 \<or> c = 0x49 \<or> c = 0x4F \<or> c = 0x55 \<or> c = 0x59"

subsection \<open>TextPhoneme.CHAR_MAP\<close>

text \<open>
  The table, keyed by the single characters of the source (a, A, e, E, i, I, y, Y, o, O,
  u, U, b, m, p, B, M, P, f, v, F, V, w, W, space, newline, and the punctuation
  . , ! ? ~ U+2026). The entry under the key \<^verbatim>\<open>default\<close> is a constant of its own: no
  single character reads it.
\<close>

definition CHAR_MAP :: "code_unit \<rightharpoonup> string option \<times> real" where
  "CHAR_MAP = map_of
     [(0x61, (Some ''aa'', 0.85)), (0x41, (Some ''aa'', 0.85)),
      (0x65, (Some ''ee'', 0.55)), (0x45, (Some ''ee'', 0.55)),
      (0x69, (Some ''ih'', 0.50)), (0x49, (Some ''ih'', 0.50)),
      (0x79, (Some ''ih'', 0.35)), (0x59, (Some ''ih'', 0.35)),
      (0x6F, (Some ''oh'', 0.70)), (0x4F, (Some ''oh'', 0.70)),
      (0x75, (Some ''ou'', 0.50)), (0x55, (Some ''ou'', 0.50)),
      (0x62, (Some ''aa'', 0.15)), (0x6D, (Some ''aa'', 0.10)), (0x70, (Some ''aa'', 0.12)),
      (0x42, (Some ''aa'', 0.15)), (0x4D, (Some ''aa'', 0.10)), (0x50, (Some ''aa'', 0.12)),
      (0x66, (Some ''ih'', 0.20)), (0x76, (Some ''ih'', 0.20)),
      (0x46, (Some ''ih'', 0.20)), (0x56, (Some ''ih'', 0.20)),
      (0x77, (Some ''ou'', 0.30)), (0x57, (Some ''ou'', 0.30)),
      (0x20, (None, 0)), (0x0A, (None, 0)),
      (0x2E, (None, 0)), (0x2C, (None, 0)), (0x21, (None, 0)),
      (0x3F, (None, 0)), (0x7E, (None, 0)), (0x2026, (None, 0))]"

definition CHAR_MAP_default :: "string option \<times> real" where
  "CHAR_MAP_default = (Some ''aa'', 0.18)"

definition CHAR_DURATION :: real where
  "CHAR_DURATION = 0.09"

definition SPACE_DURATION :: real where
  "SPACE_DURATION = 0.07"

text \<open>
  \<^verbatim>\<open>toLowerCase\<close> on one code unit, for the ASCII letters only; the lookup that calls it
  is a fallback the vowels never reach, since every vowel is a key of the table.
\<close>

definition toLowerCase :: "code_unit \<Rightarrow> code_unit" where
  "toLowerCase c = (if 0x41 \<le> c \<and> c \<le> 0x5A then c + 0x20 else c)"

section \<open>TextPhoneme.parse (syllable scheduler, src/unnamed/part\_003)\<close>

text \<open>
  \<^verbatim>\<open>text.split(/([\s.,!?~\<dots>\-;:'"()]+)/)\<close>: the separator matches a maximal run of
  separator characters and, being captured, is kept in the result. The result
  alternates words and separator runs, starts and ends with a word, and a word at either
  end is the empty string when the text starts or ends with a separator.
  \<open>split_go inSep cur rest\<close> scans \<open>rest\<close> with the token \<open>cur\<close> under
  construction, \<open>inSep\<close> telling whether it is a separator run.
\<close>

fun split_go :: "bool \<Rightarrow> jsstring \<Rightarrow> jsstring \<Rightarrow> jsstring list" where
  "split_go inSep cur [] = (if inSep then [cur, []] else [cur])"
| "split_go inSep cur (c # cs) =
     (if is_sep c = inSep then split_go inSep (cur @ [c]) cs
      else cur # split_go (is_sep c) [c] cs)"

definition split_text :: "jsstring \<Rightarrow> jsstring list" where
  "split_text text = split_go False [] text"

text \<open>The inner loop over the vowels of a word: a syllable beat and a micro-close each.\<close>

definition vowel_entry :: "code_unit \<Rightarrow> string option \<times> real" where
  "vowel_entry v =
     (case CHAR_MAP v of
        Some e \<Rightarrow> e
      | None \<Rightarrow> (case CHAR_MAP (toLowerCase v) of Some e \<Rightarrow> e | None \<Rightarrow> (Some ''aa'', 0.6)))"

fun vowel_loop :: "code_unit list \<Rightarrow> phoneme list \<times> real \<Rightarrow> phoneme list \<times> real" where
  "vowel_loop [] acc = acc"
| "vowel_loop (v # vs) (events, totalDur) =
     vowel_loop vs
       (events @ [\<lparr>shape = fst (vowel_entry v), weight = snd (vowel_entry v), duration = 0.12\<rparr>,
                  \<lparr>shape = None, weight = 0.1, duration = 0.03\<rparr>],
        totalDur + 0.12 + 0.03)"

text \<open>The loop over the tokens, carrying \<open>events\<close> and \<open>totalDur\<close>.\<close>

fun parse_tokens :: "jsstring list \<Rightarrow> phoneme list \<times> real \<Rightarrow> phoneme list \<times> real" where
  "parse_tokens [] acc = acc"
| "parse_tokens (token # rest) (events, totalDur) =
     (if token = [] then parse_tokens rest (events, totalDur)
      else if list_all is_sep token then
        (let d = (if list_ex is_long token then 0.3 else 0.08)
         in parse_tokens rest
              (events @ [\<lparr>shape = None, weight = 0, duration = d\<rparr>], totalDur + d))
      else
        (let vowels = filter is_vowel token;
             (events1, totalDur1) =
               (if vowels \<noteq> [] then vowel_loop vowels (events, totalDur)
                else (events @ [\<lparr>shape = Some ''ih'', weight = 0.4, duration = 0.15\<rparr>],
                      totalDur + 0.15))
         in parse_tokens rest
              (events1 @ [\<lparr>shape = None, weight = 0, duration = 0.06\<rparr>], totalDur1 + 0.06)))"

definition parse :: "jsstring \<Rightarrow> jsnum \<Rightarrow> phoneme list" where
  "parse text targetDuration =
     (let (events, totalDur) = parse_tokens (split_text text) ([], 0)
      in if js_gt0 targetDuration \<and> targetDuration \<noteq> PosInfinity \<and> 0 < totalDur then
           (case targetDuration of
              Num d \<Rightarrow> (let scale = d / totalDur
                        in map (\<lambda>ev. ev\<lparr>duration := duration ev * scale\<rparr>) events)
            | _ \<Rightarrow> events)
         else events)"

section \<open>TextPhoneme.parse (per-character scheduler, src/main.js)\<close>

definition char_event :: "code_unit \<Rightarrow> phoneme" where
  "char_event ch =
     (if ch = 0x20 \<or> ch = 0x0A then \<lparr>shape = None, weight = 0, duration = SPACE_DURATION\<rparr>
      else if is_punct ch then \<lparr>shape = None, weight = 0, duration = CHAR_DURATION * 0.5\<rparr>
      else
        (let (shape0, weight0) = (case CHAR_MAP ch of Some e \<Rightarrow> e | None \<Rightarrow> CHAR_MAP_default)
         in if 127 < ch then \<lparr>shape = None, weight = 0, duration = CHAR_DURATION * 0.4\<rparr>
            else \<lparr>shape = shape0, weight = weight0, duration = CHAR_DURATION\<rparr>))"

fun parse_main :: "jsstring \<Rightarrow> phoneme list \<Rightarrow> phoneme list" where
  "parse_main [] events = events"
| "parse_main (ch # rest) events = parse_main rest (events @ [char_event ch])"

section \<open>State of the character: face controller, audio queue, socket\<close>

text \<open>
  The module-level singletons \<^verbatim>\<open>face\<close>, \<^verbatim>\<open>ttsPlayer\<close> and \<^verbatim>\<open>ws\<close> of
  src/unnamed/part\_003 are one record, passed through every operation. What the
  browser holds for the program is part of the state as well: the audio elements created
  so far with their listeners, the pending \<^verbatim>\<open>setTimeout\<close> callbacks that call
  \<^verbatim>\<open>face.returnToNeutral\<close>, the messages sent on the socket and the actions handed to
  \<^verbatim>\<open>handleAction\<close>. Writes to the DOM (subtitle, emotion badge), the console, the values
  pushed to the VRM expression manager, the head-look target and the procedural body pose
  are outputs that no modelled operation reads back; they are left out.
\<close>

datatype blink_phase = Idle | Closing | Opening

datatype ready_state = CONNECTING | OPEN | CLOSING | CLOSED

text \<open>A queued item \<^verbatim>\<open>{ b64, text, emotion }\<close>; a field the message lacked is \<open>None\<close>.\<close>

record item =
  item_b64 :: string
  item_text :: "jsstring option"
  item_emotion :: "string option"

text \<open>
  An \<^verbatim>\<open>Audio\<close> element made by \<^verbatim>\<open>_playNext\<close>: the \<^verbatim>\<open>text\<close> and \<^verbatim>\<open>emotion\<close> its
  listeners close over, whether its object URL is still allocated, whether it is paused,
  which of the three \<^verbatim>\<open>{ once: true }\<close> listeners are still registered, and whether the
  promise of \<^verbatim>\<open>play()\<close> is still pending.
\<close>

record audio =
  audio_text :: "jsstring option"
  audio_emotion :: "string option"
  urlLive :: bool
  paused :: bool
  playingArmed :: bool
  endedArmed :: bool
  errorArmed :: bool
  playPending :: bool

record world =
  vrm :: "bool option"
  exprCurrent :: "string \<rightharpoonup> real"
  exprTarget :: "string \<rightharpoonup> real"
  activeExpr :: string
  blinkTimer :: real
  blinkState :: blink_phase
  blinkProg :: real
  blinkDur :: real
  phonQueue :: "phoneme list"
  phonTimer :: real
  phonCurrent :: "phoneme option"
  lipCurrent :: "string \<rightharpoonup> real"
  lipTarget :: "string \<rightharpoonup> real"
  speaking :: bool
  queue :: "item list"
  playing :: bool
  neutralTimer :: "nat option"
  currentAudio :: "nat option"
  audios :: "audio list"
  timers :: "nat list"
  nextTimer :: nat
  socket :: "ready_state option"
  sent :: "jsstring list"
  actions :: "string list"

text \<open>
  \<open>vrm\<close> is \<open>None\<close> until \<^verbatim>\<open>face.init\<close>; \<open>Some em\<close> afterwards, \<open>em\<close> telling
  whether the model has an expression manager. \<open>currentAudio\<close> and the audio events
  name an element by its index in \<open>audios\<close>. The state of the module as its object
  literals declare it:
\<close>

definition world0 :: world where
  "world0 =
     \<lparr>vrm = None, exprCurrent = Map.empty, exprTarget = Map.empty, activeExpr = ''neutral'',
      blinkTimer = 3, blinkState = Idle, blinkProg = 0, blinkDur = fl 0.1,
      phonQueue = [], phonTimer = 0, phonCurrent = None,
      lipCurrent = Map.empty, lipTarget = Map.empty, speaking = False,
      queue = [], playing = False, neutralTimer = None, currentAudio = None,
      audios = [], timers = [], nextTimer = 0,
      socket = None, sent = [], actions = []\<rparr>"

text \<open>Truthiness of an optional string: present and not empty.\<close>

definition truthy :: "'a list option \<Rightarrow> bool" where
  "truthy x = (case x of None \<Rightarrow> False | Some v \<Rightarrow> v \<noteq> [])"

text \<open>\<^verbatim>\<open>m[k] ?? 0\<close>.\<close>

definition get0 :: "(string \<rightharpoonup> real) \<Rightarrow> string \<Rightarrow> real" where
  "get0 m k = (case m k of None \<Rightarrow> 0 | Some v \<Rightarrow> v)"

text \<open>\<^verbatim>\<open>names.forEach(n => { m[n] = 0; })\<close>.\<close>

definition zero_all :: "string list \<Rightarrow> (string \<rightharpoonup> real) \<Rightarrow> (string \<rightharpoonup> real)" where
  "zero_all names m = fold (\<lambda>n acc. acc(n \<mapsto> 0)) names m"

subsection \<open>Timers\<close>

text \<open>
  \<^verbatim>\<open>setTimeout(() => face.returnToNeutral(), ms)\<close> registers a callback under a fresh
  handle; \<^verbatim>\<open>clearTimeout(h)\<close> removes it and leaves the variable holding \<open>h\<close> alone.
\<close>

definition setTimeout :: "world \<Rightarrow> world" where
  "setTimeout s = s\<lparr>timers := timers s @ [nextTimer s], nextTimer := nextTimer s + 1\<rparr>"

definition clearTimeout :: "nat option \<Rightarrow> world \<Rightarrow> world" where
  "clearTimeout h s =
     (case h of None \<Rightarrow> s | Some i \<Rightarrow> s\<lparr>timers := removeAll i (timers s)\<rparr>)"

section \<open>The face controller\<close>

text \<open>The own keys of the object literal \<^verbatim>\<open>face.EXPR_NAMES\<close>.\<close>

definition EXPR_NAMES :: "string \<rightharpoonup> string" where
  "EXPR_NAMES = map_of
     [(''happy'', ''happy''), (''sad'', ''sad''), (''angry'', ''angry''),
      (''surprised'', ''surprised''), (''thinking'', ''relaxed''), (''neutral'', ''neutral''),
      (''excited'', ''happy''), (''worried'', ''sad''), (''love'', ''happy'')]"

text \<open>
  \<^verbatim>\<open>this.EXPR_NAMES[key]\<close> also finds what the object literal inherits from
  \<^verbatim>\<open>Object.prototype\<close>: a built-in function under eleven names and the prototype object
  itself under \<^verbatim>\<open>__proto__\<close>. These values are truthy, so \<^verbatim>\<open>|| 'neutral'\<close> does not
  replace them, and \<^verbatim>\<open>setEmotion\<close> stores the value in \<^verbatim>\<open>_activeExpr\<close> and indexes
  \<^verbatim>\<open>_exprTarget\<close> with it. Such a value is represented by the property key it converts
  to (the text of a built-in function, whose layout is the browser's; that of V8 is
  used), which is how \<^verbatim>\<open>_exprTarget\<close> is indexed. Distinct values convert to distinct
  keys, none of them a preset name, so the comparisons \<^verbatim>\<open>preset === this._activeExpr\<close>
  and \<^verbatim>\<open>this._activeExpr === 'neutral'\<close> are the comparisons of the keys.
  \<open>EXPR_NAMES_get key\<close> is \<^verbatim>\<open>this.EXPR_NAMES[key] || 'neutral'\<close>.
\<close>

definition native_function :: "string \<Rightarrow> string" where
  "native_function name = ''function '' @ name @ ''() { [native code] }''"

definition Object_prototype :: "string \<rightharpoonup> string" where
  "Object_prototype = map_of
     [(''constructor'', native_function ''Object''),
      (''hasOwnProperty'', native_function ''hasOwnProperty''),
      (''isPrototypeOf'', native_function ''isPrototypeOf''),
      (''propertyIsEnumerable'', native_function ''propertyIsEnumerable''),
      (''toLocaleString'', native_function ''toLocaleString''),
      (''toString'', native_function ''toString''),
      (''valueOf'', native_function ''valueOf''),
      (''__defineGetter__'', native_function ''__defineGetter__''),
      (''__defineSetter__'', native_function ''__defineSetter__''),
      (''__lookupGetter__'', native_function ''__lookupGetter__''),
      (''__lookupSetter__'', native_function ''__lookupSetter__''),
      (''__proto__'', ''[object Object]'')]"

definition EXPR_NAMES_get :: "string \<Rightarrow> string" where
  "EXPR_NAMES_get key =
     (case EXPR_NAMES key of
        Some p \<Rightarrow> p
      | None \<Rightarrow> (case Object_prototype key of Some v \<Rightarrow> v | None \<Rightarrow> ''neutral''))"

text \<open>\<^verbatim>\<open>[...new Set(Object.values(this.EXPR_NAMES))]\<close>.\<close>

definition allNames :: "string list" where
  "allNames = [''happy'', ''sad'', ''angry'', ''surprised'', ''relaxed'', ''neutral'']"

definition LIP_SHAPES :: "string list" where
  "LIP_SHAPES = [''aa'', ''ih'', ''ou'', ''ee'', ''oh'']"

text \<open>\<^verbatim>\<open>face.init(vrm)\<close>; \<open>rnd\<close> is the value \<^verbatim>\<open>Math.random()\<close> returns.\<close>

definition init :: "bool \<Rightarrow> real \<Rightarrow> world \<Rightarrow> world" where
  "init em rnd s =
     s\<lparr>vrm := Some em,
       blinkTimer := fl (2 + fl (rnd * 3)),
       exprCurrent := zero_all allNames (exprCurrent s),
       exprTarget := (zero_all allNames (exprTarget s))(''neutral'' \<mapsto> 1),
       lipCurrent := zero_all LIP_SHAPES (lipCurrent s),
       lipTarget := zero_all LIP_SHAPES (lipTarget s)\<rparr>"

definition setEmotion :: "string \<Rightarrow> world \<Rightarrow> world" where
  "setEmotion key s =
     (let preset = EXPR_NAMES_get key
      in if preset = activeExpr s then s
         else s\<lparr>exprTarget := ((exprTarget s)(activeExpr s \<mapsto> 0))(preset \<mapsto> 1),
                activeExpr := preset\<rparr>)"

definition returnToNeutral :: "world \<Rightarrow> world" where
  "returnToNeutral s = setEmotion ''neutral'' s"

definition startSpeaking :: "jsstring \<Rightarrow> jsnum \<Rightarrow> world \<Rightarrow> world" where
  "startSpeaking text dur s =
     s\<lparr>phonQueue := parse text dur, phonTimer := 0, phonCurrent := None, speaking := True,
       lipTarget := zero_all LIP_SHAPES (lipTarget s)\<rparr>"

definition stopSpeaking :: "world \<Rightarrow> world" where
  "stopSpeaking s =
     s\<lparr>speaking := False, phonQueue := [], lipTarget := zero_all LIP_SHAPES (lipTarget s)\<rparr>"

subsection \<open>face.update: expression cross-fade\<close>

definition expr_lerp :: "real \<Rightarrow> real \<Rightarrow> real \<Rightarrow> real" where
  "expr_lerp delta tgt cur =
     (let exprSpeed = min 1 (delta * 5.5)
      in if \<bar>tgt - cur\<bar> < 0.001 then tgt else cur + (tgt - cur) * exprSpeed)"

text \<open>
  The loop runs over the keys of \<^verbatim>\<open>_exprCurrent\<close>; each key is read and written once, so
  the order of the keys does not matter.
\<close>

definition exprCrossFade :: "real \<Rightarrow> world \<Rightarrow> world" where
  "exprCrossFade delta s =
     s\<lparr>exprCurrent :=
         (\<lambda>name. case exprCurrent s name of
                    None \<Rightarrow> None
                  | Some cur \<Rightarrow> Some (expr_lerp delta (get0 (exprTarget s) name) cur))\<rparr>"

subsection \<open>face.update: text-driven lip sync\<close>

text \<open>\<open>rnd\<close> is the value of \<^verbatim>\<open>Math.random()\<close> behind \<^verbatim>\<open>variation\<close>.\<close>

definition lipSync :: "real \<Rightarrow> real \<Rightarrow> world \<Rightarrow> world" where
  "lipSync delta rnd s =
     (if speaking s then
        (let s1 = s\<lparr>phonTimer := phonTimer s + delta\<rparr>
         in if (case phonCurrent s1 of None \<Rightarrow> True | Some ev \<Rightarrow> duration ev \<le> phonTimer s1) then
              (case phonQueue s1 of
                 ev # rest \<Rightarrow>
                   (let s2 = s1\<lparr>phonCurrent := Some ev, phonQueue := rest, phonTimer := 0,
                                lipTarget := zero_all LIP_SHAPES (lipTarget s1)\<rparr>
                    in if truthy (shape ev) then
                         (case shape ev of
                            Some sh \<Rightarrow>
                              (let variation = 0.50 + rnd * 0.30
                               in s2\<lparr>lipTarget := (lipTarget s2)(sh \<mapsto> min 1 (weight ev * variation))\<rparr>)
                          | None \<Rightarrow> s2)
                       else s2)
               | [] \<Rightarrow> setTimeout (stopSpeaking s1))
            else s1)
      else s)"

definition lip_lerp :: "real \<Rightarrow> real \<Rightarrow> real \<Rightarrow> real" where
  "lip_lerp delta tgt cur = (let lipSpeed = min 1 (delta * 12) in cur + (tgt - cur) * lipSpeed)"

definition lipLerp :: "real \<Rightarrow> world \<Rightarrow> world" where
  "lipLerp delta s =
     s\<lparr>lipCurrent :=
         fold (\<lambda>name m. m(name \<mapsto> lip_lerp delta (get0 (lipTarget s) name) (get0 m name)))
           LIP_SHAPES (lipCurrent s)\<rparr>"

subsection \<open>face.\_handleExpressions: the blink state machine\<close>

text \<open>
  \<open>rnd\<close> is the value of \<^verbatim>\<open>Math.random()\<close> that re-arms the timer. Without an
  expression manager the function returns at once. Every operation is rounded. In every
  execution the division is by 0.08, the value of \<^verbatim>\<open>_blinkDur\<close> whenever the phase is
  not idle (see \<open>blink_inv\<close> below), so a division by zero does not arise.
\<close>

definition handleExpressions :: "real \<Rightarrow> real \<Rightarrow> world \<Rightarrow> world" where
  "handleExpressions delta rnd s =
     (if vrm s \<noteq> Some True then s
      else
        (let s1 = s\<lparr>blinkTimer := fl (blinkTimer s - delta)\<rparr>;
             s2 = (if blinkTimer s1 \<le> 0
                   then s1\<lparr>blinkState := Closing, blinkTimer := fl (2 + fl (rnd * 4)),
                           blinkDur := fl 0.08, blinkProg := 0\<rparr>
                   else s1)
         in if blinkState s2 \<noteq> Idle then
              (let s3 = s2\<lparr>blinkProg := fl (blinkProg s2 + fl (delta / blinkDur s2))\<rparr>
               in if blinkState s3 = Closing then
                    (if 1 \<le> blinkProg s3 then s3\<lparr>blinkProg := 1, blinkState := Opening\<rparr> else s3)
                  else
                    (if 2 \<le> blinkProg s3 then s3\<lparr>blinkProg := 0, blinkState := Idle\<rparr> else s3))
            else s2))"

text \<open>
  The eyelid weight a call hands to the expression manager (\<open>None\<close>: no call of
  \<^verbatim>\<open>setValue\<close>). When the phase is not idle after the timer test, the weight is computed
  from the phase and the progress as the call leaves them; in the call that ends the
  opening phase these are idle and 0, so the weight handed over is
  \<^verbatim>\<open>Math.min(1, 2 - 0)\<close>, which is 1.
\<close>

definition blinkAmt :: "real \<Rightarrow> real \<Rightarrow> world \<Rightarrow> real option" where
  "blinkAmt delta rnd s =
     (if vrm s \<noteq> Some True then None
      else
        (let s' = handleExpressions delta rnd s
         in if fl (blinkTimer s - delta) \<le> 0 \<or> blinkState s \<noteq> Idle
            then Some (max 0 (min 1 (if blinkState s' = Closing then blinkProg s'
                                     else fl (2 - blinkProg s'))))
            else Some 0))"

subsection \<open>face.update and the render loop\<close>

definition update :: "real \<Rightarrow> real \<Rightarrow> real \<Rightarrow> world \<Rightarrow> world" where
  "update delta rndLip rndBlink s =
     (if vrm s = None then s
      else handleExpressions delta rndBlink (lipLerp delta (lipSync delta rndLip (exprCrossFade delta s))))"

text \<open>
  \<^verbatim>\<open>animate\<close>: the frame time of the clock, capped at 50 ms, drives one update when a
  model is loaded (\<^verbatim>\<open>currentVRM\<close> and \<^verbatim>\<open>face.vrm\<close> are set together).
\<close>

definition animate :: "real \<Rightarrow> real \<Rightarrow> real \<Rightarrow> world \<Rightarrow> world" where
  "animate clockDelta rndLip rndBlink s = update (min clockDelta (fl 0.05)) rndLip rndBlink s"

section \<open>The audio queue (ttsPlayer)\<close>

text \<open>
  \<^verbatim>\<open>b64ToObjectUrl\<close> throws when the browser's \<^verbatim>\<open>atob\<close> rejects its argument. \<^verbatim>\<open>atob\<close>
  is not part of the repository: the operations take its verdict as the parameter
  \<open>atob_ok\<close>.
\<close>

definition newAudio :: "item \<Rightarrow> audio" where
  "newAudio it =
     \<lparr>audio_text = item_text it, audio_emotion = item_emotion it, urlLive = True,
      paused = False, playingArmed = True, endedArmed = True, errorArmed = True,
      playPending = True\<rparr>"

definition upd_audio :: "nat \<Rightarrow> (audio \<Rightarrow> audio) \<Rightarrow> world \<Rightarrow> world" where
  "upd_audio a f s = s\<lparr>audios := (audios s)[a := f (audios s ! a)]\<rparr>"

text \<open>
  \<^verbatim>\<open>_playNext\<close>. \<open>playNext_from atob_ok q s\<close> is the call in a state whose queue is
  \<open>q\<close>; after a decode error the function calls itself on the rest of the queue.
\<close>

fun playNext_from :: "(string \<Rightarrow> bool) \<Rightarrow> item list \<Rightarrow> world \<Rightarrow> world" where
  "playNext_from atob_ok [] s =
     (let s1 = stopSpeaking (s\<lparr>playing := False\<rparr>)
      in (setTimeout s1)\<lparr>neutralTimer := Some (nextTimer s1)\<rparr>)"
| "playNext_from atob_ok (it # rest) s =
     (let s1 = s\<lparr>playing := True, queue := rest\<rparr>
      in if \<not> atob_ok (item_b64 it) then playNext_from atob_ok rest (s1\<lparr>playing := False\<rparr>)
         else s1\<lparr>audios := audios s1 @ [newAudio it],
                 currentAudio := Some (length (audios s1))\<rparr>)"

definition playNext :: "(string \<Rightarrow> bool) \<Rightarrow> world \<Rightarrow> world" where
  "playNext atob_ok s = playNext_from atob_ok (queue s) s"

definition enqueue ::
  "(string \<Rightarrow> bool) \<Rightarrow> string \<Rightarrow> jsstring option \<Rightarrow> string option \<Rightarrow> world \<Rightarrow> world" where
  "enqueue atob_ok b64 text emotion s =
     (let s1 = clearTimeout (neutralTimer s) s;
          s2 = s1\<lparr>queue := queue s1 @ [\<lparr>item_b64 = b64, item_text = text, item_emotion = emotion\<rparr>]\<rparr>
      in if \<not> playing s2 then playNext atob_ok s2 else s2)"

definition clear :: "world \<Rightarrow> world" where
  "clear s =
     (let s1 = s\<lparr>queue := []\<rparr>;
          s2 = (case currentAudio s1 of
                  Some a \<Rightarrow> (upd_audio a (\<lambda>au. au\<lparr>paused := True\<rparr>) s1)\<lparr>currentAudio := None\<rparr>
                | None \<Rightarrow> s1);
          s3 = stopSpeaking s2;
          s4 = clearTimeout (neutralTimer s3) s3
      in s4\<lparr>playing := False\<rparr>)"

subsection \<open>The listeners of an audio element\<close>

text \<open>
  \<open>onPlaying a dur\<close> is the \<^verbatim>\<open>playing\<close> listener of element \<open>a\<close>, \<open>dur\<close> the value
  of \<^verbatim>\<open>audio.duration\<close> it reads. When the item carried no text string,
  \<^verbatim>\<open>face.startSpeaking\<close> throws in its first statement (\<^verbatim>\<open>text.split\<close>), before it
  writes anything, and the event loop drops the exception.
\<close>

definition onPlaying :: "nat \<Rightarrow> jsnum \<Rightarrow> world \<Rightarrow> world" where
  "onPlaying a dur s =
     (let emotion = audio_emotion (audios s ! a);
          text = audio_text (audios s ! a);
          s1 = (if truthy emotion then (case emotion of Some e \<Rightarrow> setEmotion e s | None \<Rightarrow> s)
                else s)
      in case text of Some t \<Rightarrow> startSpeaking t dur s1 | None \<Rightarrow> s1)"

definition onEnded :: "(string \<Rightarrow> bool) \<Rightarrow> nat \<Rightarrow> world \<Rightarrow> world" where
  "onEnded atob_ok a s =
     (let s1 = stopSpeaking s;
          s2 = upd_audio a (\<lambda>au. au\<lparr>urlLive := False\<rparr>) s1;
          s3 = s2\<lparr>currentAudio := None\<rparr>
      in playNext atob_ok s3)"

definition onError :: "(string \<Rightarrow> bool) \<Rightarrow> nat \<Rightarrow> world \<Rightarrow> world" where
  "onError atob_ok a s =
     (let s1 = stopSpeaking s;
          s2 = upd_audio a (\<lambda>au. au\<lparr>urlLive := False\<rparr>) s1;
          s3 = s2\<lparr>currentAudio := None\<rparr>
      in playNext atob_ok s3)"

text \<open>The handler given to \<^verbatim>\<open>audio.play().catch\<close>.\<close>

definition onPlayRejected :: "(string \<Rightarrow> bool) \<Rightarrow> nat \<Rightarrow> world \<Rightarrow> world" where
  "onPlayRejected atob_ok a s =
     (let s1 = stopSpeaking s;
          s2 = upd_audio a (\<lambda>au. au\<lparr>urlLive := False\<rparr>) s1;
          s3 = s2\<lparr>currentAudio := None\<rparr>;
          s4 = s3\<lparr>playing := False\<rparr>
      in playNext atob_ok s4)"

section \<open>The WebSocket client (ws)\<close>

record message =
  msg_type :: "string option"
  msg_text :: "jsstring option"
  msg_emotion :: "string option"
  msg_audioB64 :: "string option"
  msg_action :: "string option"
  msg_streaming :: bool
  msg_first :: bool

text \<open>
  \<^verbatim>\<open>ws.send\<close> of src/unnamed/part\_003; \<open>sent\<close> collects the \<^verbatim>\<open>text\<close> of every
  \<^verbatim>\<open>{ type: 'user_message', text }\<close> handed to the socket. \<open>socket\<close> is \<open>None\<close> while
  \<^verbatim>\<open>ws.socket\<close> is null, else its \<^verbatim>\<open>readyState\<close>.
\<close>

definition send :: "jsstring \<Rightarrow> world \<Rightarrow> world" where
  "send text s =
     (if socket s = Some OPEN then
        (let s1 = clear s;
             s2 = s1\<lparr>sent := sent s1 @ [text]\<rparr>
         in setEmotion ''thinking'' s2)
      else s)"

text \<open>\<^verbatim>\<open>ws.send\<close> of src/main.js.\<close>

definition send_main :: "jsstring \<Rightarrow> world \<Rightarrow> world" where
  "send_main text s = (if socket s = Some OPEN then s\<lparr>sent := sent s @ [text]\<rparr> else s)"

text \<open>
  \<^verbatim>\<open>ws._handle\<close> of src/unnamed/part\_003. The call of \<^verbatim>\<open>handleAction\<close> is recorded in
  \<open>actions\<close>; what the returned promise does later is not modelled.
\<close>

definition handle :: "(string \<Rightarrow> bool) \<Rightarrow> message \<Rightarrow> world \<Rightarrow> world" where
  "handle atob_ok cmd s =
     (if msg_type cmd \<noteq> Some ''dialogue'' then s
      else
        (let s1 = (if truthy (msg_audioB64 cmd) then
                     (case msg_audioB64 cmd of
                        Some b \<Rightarrow> enqueue atob_ok b (msg_text cmd) (msg_emotion cmd) s
                      | None \<Rightarrow> s)
                   else if truthy (msg_emotion cmd) then
                     (case msg_emotion cmd of Some e \<Rightarrow> setEmotion e s | None \<Rightarrow> s)
                   else s)
         in if truthy (msg_action cmd) then
              (case msg_action cmd of Some a \<Rightarrow> s1\<lparr>actions := actions s1 @ [a]\<rparr> | None \<Rightarrow> s1)
            else s1))"

section \<open>Events\<close>

text \<open>
  Everything that happens to the program is one of these events; each runs to completion
  before the next (the page is single-threaded). An audio event names its element. A
  listener registered with \<^verbatim>\<open>{ once: true }\<close> runs at most once, and the handler of
  \<^verbatim>\<open>play().catch\<close> runs only while the promise is pending; apart from that the browser is
  free to deliver any event at any time.
\<close>

datatype event =
    Frame real real real
  | Timeout nat
  | LoadModel bool real
  | SocketState ready_state
  | Message message
  | UserSend jsstring
  | AudioPlaying nat jsnum
  | AudioEnded nat
  | AudioError nat
  | PlayResolved nat
  | PlayRejected nat

fun step :: "(string \<Rightarrow> bool) \<Rightarrow> event \<Rightarrow> world \<Rightarrow> world" where
  "step atob_ok (Frame clockDelta rndLip rndBlink) s = animate clockDelta rndLip rndBlink s"
| "step atob_ok (Timeout i) s =
     (if i \<in> set (timers s) then returnToNeutral (s\<lparr>timers := removeAll i (timers s)\<rparr>) else s)"
| "step atob_ok (LoadModel em rnd) s = init em rnd s"
| "step atob_ok (SocketState r) s = s\<lparr>socket := Some r\<rparr>"
| "step atob_ok (Message cmd) s = handle atob_ok cmd s"
| "step atob_ok (UserSend text) s = send text s"
| "step atob_ok (AudioPlaying a dur) s =
     (if a < length (audios s) \<and> playingArmed (audios s ! a)
      then onPlaying a dur (upd_audio a (\<lambda>au. au\<lparr>playingArmed := False\<rparr>) s) else s)"
| "step atob_ok (AudioEnded a) s =
     (if a < length (audios s) \<and> endedArmed (audios s ! a)
      then onEnded atob_ok a (upd_audio a (\<lambda>au. au\<lparr>endedArmed := False\<rparr>) s) else s)"
| "step atob_ok (AudioError a) s =
     (if a < length (audios s) \<and> errorArmed (audios s ! a)
      then onError atob_ok a (upd_audio a (\<lambda>au. au\<lparr>errorArmed := False\<rparr>) s) else s)"
| "step atob_ok (PlayResolved a) s =
     (if a < length (audios s) \<and> playPending (audios s ! a)
      then upd_audio a (\<lambda>au. au\<lparr>playPending := False\<rparr>) s else s)"
| "step atob_ok (PlayRejected a) s =
     (if a < length (audios s) \<and> playPending (audios s ! a)
      then onPlayRejected atob_ok a (upd_audio a (\<lambda>au. au\<lparr>playPending := False\<rparr>) s) else s)"

fun run :: "(string \<Rightarrow> bool) \<Rightarrow> event list \<Rightarrow> world \<Rightarrow> world" where
  "run atob_ok [] s = s"
| "run atob_ok (e # es) s = run atob_ok es (step atob_ok e s)"

section \<open>The blink of src/main.js\<close>

text \<open>
  The older build keeps no named phase: a blink is in progress while \<^verbatim>\<open>_blinking\<close> is
  set, and \<^verbatim>\<open>_blinkPhase\<close> is the time since it began. The block runs once per
  \<^verbatim>\<open>face.update\<close>; \<open>rnd\<close> is the value of \<^verbatim>\<open>Math.random()\<close> that draws the next
  cooldown. \<open>OPEN_time\<close> is the constant \<^verbatim>\<open>OPEN\<close> of the source. \<open>main_bv\<close> is the
  eyelid weight handed to the expression manager for a phase. Every literal and every
  operation is rounded to a double.
\<close>

record blink_main =
  main_blinkTimer :: real
  main_blinkCooldown :: real
  main_blinkPhase :: real
  main_blinking :: bool

definition CLOSE :: real where "CLOSE = fl 0.07"
definition HOLD :: real where "HOLD = fl 0.04"
definition OPEN_time :: real where "OPEN_time = fl 0.09"
definition TOTAL :: real where "TOTAL = fl 0.20"

definition blink_main_tick :: "real \<Rightarrow> real \<Rightarrow> blink_main \<Rightarrow> blink_main" where
  "blink_main_tick delta rnd b =
     (let b1 = b\<lparr>main_blinkTimer := fl (main_blinkTimer b + delta)\<rparr>;
          b2 = (if \<not> main_blinking b1 \<and> main_blinkCooldown b1 \<le> main_blinkTimer b1
                then b1\<lparr>main_blinking := True, main_blinkPhase := 0, main_blinkTimer := 0,
                        main_blinkCooldown := fl (2 + fl (rnd * 4))\<rparr>
                else b1)
      in if main_blinking b2 then
           (let b3 = b2\<lparr>main_blinkPhase := fl (main_blinkPhase b2 + delta)\<rparr>
            in if main_blinkPhase b3 < CLOSE then b3
               else if main_blinkPhase b3 < fl (CLOSE + HOLD) then b3
               else if main_blinkPhase b3 < TOTAL then b3
               else b3\<lparr>main_blinking := False\<rparr>)
         else b2)"

definition main_bv :: "real \<Rightarrow> real" where
  "main_bv phase =
     max 0 (min 1
       (if phase < CLOSE then fl (phase / CLOSE)
        else if phase < fl (CLOSE + HOLD) then 1
        else if phase < TOTAL then fl (1 - fl (fl (fl (phase - CLOSE) - HOLD) / OPEN_time))
        else 0))"

text \<open>
  \<open>cycle_frames_main ticks b\<close>: the frame times of the calls from \<open>b\<close> up to and
  including the first call that leaves no blink in progress (\<open>None\<close> when the ticks run
  out before that).
\<close>

fun cycle_frames_main :: "(real \<times> real) list \<Rightarrow> blink_main \<Rightarrow> real list option" where
  "cycle_frames_main [] b = None"
| "cycle_frames_main ((delta, rnd) # ts) b =
     (let b' = blink_main_tick delta rnd b
      in if \<not> main_blinking b' then Some [delta]
         else map_option ((#) delta) (cycle_frames_main ts b'))"

section \<open>Auxiliary notions for the statements\<close>

text \<open>
  A code unit outside ASCII and outside the separator class, replaced by the consonant
  \<open>h\<close> (0x68); every other code unit is kept.
\<close>

definition as_consonant :: "code_unit \<Rightarrow> code_unit" where
  "as_consonant c = (if 127 < c \<and> \<not> is_sep c then 0x68 else c)"

subsection \<open>A sample session\<close>

text \<open>
  Concrete data for instantiating the theorems. \<open>demo_ok\<close> stands for an \<^verbatim>\<open>atob\<close>
  that rejects the payload \<open>%\<close> (not a base64 character) and accepts the others used
  here. \<open>demo_playing\<close> is the state after the model was loaded, a dialogue message
  with audio, the text "Hi" and the emotion happy arrived, \<^verbatim>\<open>play()\<close> was fulfilled and
  the \<^verbatim>\<open>playing\<close> event fired with a duration of 1.2 seconds.
\<close>

definition demo_ok :: "string \<Rightarrow> bool" where
  "demo_ok b \<longleftrightarrow> b \<noteq> ''%''"

definition demo_first :: item where
  "demo_first =
     \<lparr>item_b64 = ''QUJD'', item_text = Some [0x48, 0x69], item_emotion = Some ''happy''\<rparr>"

definition demo_bad :: item where
  "demo_bad =
     \<lparr>item_b64 = ''%'', item_text = Some [0x4F, 0x68], item_emotion = Some ''angry''\<rparr>"

definition demo_second :: item where
  "demo_second =
     \<lparr>item_b64 = ''REVG'', item_text = Some [0x4F, 0x6B, 0x21], item_emotion = Some ''sad''\<rparr>"

definition demo_playing :: world where
  "demo_playing =
     run demo_ok
       [LoadModel True 0.5,
        Message \<lparr>msg_type = Some ''dialogue'', msg_text = item_text demo_first,
                 msg_emotion = item_emotion demo_first,
                 msg_audioB64 = Some (item_b64 demo_first),
                 msg_action = None, msg_streaming = False, msg_first = True\<rparr>,
        PlayResolved 0, AudioPlaying 0 (Num 1.2)]
       world0"

text \<open>
  \<open>demo_msg it\<close> is the dialogue message that carries the item \<open>it\<close>. In
  \<open>demo_loading_one\<close> the model was loaded and the first item arrived: its element was
  created and \<^verbatim>\<open>play()\<close> called, but no event of the element has fired yet. In
  \<open>demo_loading_two\<close> a second item, and in \<open>demo_loading\<close> a second and a third item
  arrived behind it.
\<close>

definition demo_third :: item where
  "demo_third =
     \<lparr>item_b64 = ''R0hJ'', item_text = Some [0x42, 0x79, 0x65], item_emotion = Some ''neutral''\<rparr>"

definition demo_msg :: "item \<Rightarrow> message" where
  "demo_msg it =
     \<lparr>msg_type = Some ''dialogue'', msg_text = item_text it, msg_emotion = item_emotion it,
      msg_audioB64 = Some (item_b64 it), msg_action = None, msg_streaming = False,
      msg_first = True\<rparr>"

definition demo_loading_one :: world where
  "demo_loading_one = run demo_ok [LoadModel True 0.5, Message (demo_msg demo_first)] world0"

definition demo_loading_two :: world where
  "demo_loading_two =
     run demo_ok
       [LoadModel True 0.5, Message (demo_msg demo_first), Message (demo_msg demo_second)]
       world0"

definition demo_loading :: world where
  "demo_loading =
     run demo_ok
       [LoadModel True 0.5, Message (demo_msg demo_first), Message (demo_msg demo_second),
        Message (demo_msg demo_third)]
       world0"

text \<open>
  Three inbound messages: one that is not a dialogue, a dialogue with audio, emotion and
  action, and a dialogue with an emotion only.
\<close>

definition demo_msg_other :: message where
  "demo_msg_other =
     \<lparr>msg_type = Some ''status'', msg_text = Some [0x4F, 0x6B], msg_emotion = Some ''sad'',
      msg_audioB64 = Some ''REVG'', msg_action = Some ''dance.vrma'',
      msg_streaming = False, msg_first = False\<rparr>"

definition demo_msg_audio :: message where
  "demo_msg_audio =
     \<lparr>msg_type = Some ''dialogue'', msg_text = Some [0x4F, 0x6B, 0x21],
      msg_emotion = Some ''sad'', msg_audioB64 = Some ''REVG'',
      msg_action = Some ''dance.vrma'', msg_streaming = False, msg_first = True\<rparr>"

definition demo_msg_emotion :: message where
  "demo_msg_emotion =
     \<lparr>msg_type = Some ''dialogue'', msg_text = Some [0x4F, 0x6B], msg_emotion = Some ''sad'',
      msg_audioB64 = None, msg_action = None, msg_streaming = False, msg_first = True\<rparr>"

text \<open>
  A loaded face whose lip target for the shape aa was set to 0.6 (as a phoneme does);
  its neutral expression has target 1 and live weight 0.
\<close>

definition demo_face :: world where
  "demo_face =
     (init True 0.5 world0)\<lparr>lipTarget := (lipTarget (init True 0.5 world0))(''aa'' \<mapsto> 0.6)\<rparr>"

subsection \<open>The blink cycle\<close>

text \<open>
  \<open>blink_inv\<close>: while a blink is in progress, timer and progress are doubles and the
  timer that starts the next blink is far from firing (it has lost at most a quarter of
  the progress made). \<open>blink_follows s s'\<close>: the phase of \<open>s'\<close> is the phase of \<open>s\<close>,
  with the progress not set back, or the next phase of the cycle idle, closing, opening,
  idle. \<open>timing_ok\<close>: the clock's frame time is not negative and \<^verbatim>\<open>Math.random()\<close> is
  not negative. \<open>phases_ok\<close>: every event of an execution takes the blink machine to a
  state that follows. \<open>cycle_frames ticks s\<close>: the frame times of the calls of
  \<^verbatim>\<open>_handleExpressions\<close> from \<open>s\<close> up to and including the first call that ends in
  the idle phase (\<open>None\<close> when the ticks run out before that); their sum is the duration
  of the cycle. \<open>blink_of\<close> is what the blink machine reads and writes;
  \<open>touches_blink\<close> marks the events that reach it.
\<close>

definition blink_inv :: "world \<Rightarrow> bool" where
  "blink_inv s \<longleftrightarrow>
     (blinkState s = Closing \<longrightarrow>
        blinkDur s = fl 0.08 \<and> fl (blinkTimer s) = blinkTimer s \<and>
        fl (blinkProg s) = blinkProg s \<and> 0 \<le> blinkProg s \<and> blinkProg s < 1 \<and>
        2 \<le> blinkTimer s + blinkProg s / 4) \<and>
     (blinkState s = Opening \<longrightarrow>
        blinkDur s = fl 0.08 \<and> fl (blinkTimer s) = blinkTimer s \<and>
        fl (blinkProg s) = blinkProg s \<and> 1 \<le> blinkProg s \<and> blinkProg s < 2 \<and>
        1.8 \<le> blinkTimer s + blinkProg s / 4)"

definition blink_follows :: "world \<Rightarrow> world \<Rightarrow> bool" where
  "blink_follows s s' \<longleftrightarrow>
     (case blinkState s of
        Idle \<Rightarrow> blinkState s' = Idle \<or> blinkState s' = Closing
      | Closing \<Rightarrow>
          (blinkState s' = Closing \<and> blinkProg s \<le> blinkProg s') \<or> blinkState s' = Opening
      | Opening \<Rightarrow>
          (blinkState s' = Opening \<and> blinkProg s \<le> blinkProg s') \<or> blinkState s' = Idle)"

fun timing_ok :: "event \<Rightarrow> bool" where
  "timing_ok (Frame clockDelta rndLip rndBlink) = (0 \<le> clockDelta \<and> 0 \<le> rndBlink)"
| "timing_ok (LoadModel em rnd) = (0 \<le> rnd)"
| "timing_ok _ = True"

fun phases_ok :: "(string \<Rightarrow> bool) \<Rightarrow> event list \<Rightarrow> world \<Rightarrow> bool" where
  "phases_ok atob_ok [] s = True"
| "phases_ok atob_ok (e # es) s =
     (blink_follows s (step atob_ok e s) \<and> phases_ok atob_ok es (step atob_ok e s))"

fun cycle_frames :: "(real \<times> real) list \<Rightarrow> world \<Rightarrow> real list option" where
  "cycle_frames [] s = None"
| "cycle_frames ((delta, rnd) # ts) s =
     (let s' = handleExpressions delta rnd s
      in if blinkState s' = Idle then Some [delta]
         else map_option ((#) delta) (cycle_frames ts s'))"

definition blink_of :: "world \<Rightarrow> bool option \<times> real \<times> blink_phase \<times> real \<times> real" where
  "blink_of s = (vrm s, blinkTimer s, blinkState s, blinkProg s, blinkDur s)"

fun touches_blink :: "event \<Rightarrow> bool" where
  "touches_blink (Frame clockDelta rndLip rndBlink) = True"
| "touches_blink (LoadModel em rnd) = True"
| "touches_blink _ = False"

text \<open>
  A loaded model 0.01 s before its next blink is due, and the blink state of src/main.js
  0.01 s before its cooldown of 2.5 s has passed. \<open>frames n d\<close>: \<open>n\<close> frames whose
  clock time is the double of \<open>d\<close>, each with \<^verbatim>\<open>Math.random()\<close> returning 0.
\<close>

definition demo_blink :: world where
  "demo_blink = (init True 0.5 world0)\<lparr>blinkTimer := fl 0.01\<rparr>"

definition demo_blink_main :: blink_main where
  "demo_blink_main =
     \<lparr>main_blinkTimer = fl 2.49, main_blinkCooldown = fl 2.5, main_blinkPhase = 0,
      main_blinking = False\<rparr>"

definition frames :: "nat \<Rightarrow> real \<Rightarrow> (real \<times> real) list" where
  "frames n d = replicate n (fl d, 0)"

subsection \<open>Events that put an item into the queue\<close>

text \<open>\<open>enqueues e\<close>: the event is a dialogue message with audio, the one caller of
  \<^verbatim>\<open>ttsPlayer.enqueue\<close>.\<close>

fun enqueues :: "event \<Rightarrow> bool" where
  "enqueues (Message cmd) = (msg_type cmd = Some ''dialogue'' \<and> truthy (msg_audioB64 cmd))"
| "enqueues _ = False"

subsection \<open>The active expression\<close>

text \<open>\<open>one_active s\<close>: the active expression, and no other name, has target 1.\<close>

definition one_active :: "world \<Rightarrow> bool" where
  "one_active s \<longleftrightarrow> (\<forall>n. (exprTarget s n = Some 1) = (n = activeExpr s))"

subsection \<open>An item waiting behind the one that plays\<close>

text \<open>
  \<open>reports_end s e\<close>: in state \<open>s\<close> the event \<open>e\<close> reaches a handler that calls
  \<^verbatim>\<open>_playNext\<close> or \<^verbatim>\<open>clear\<close>: it is the \<^verbatim>\<open>ended\<close> or \<^verbatim>\<open>error\<close> event of an element
  whose listener is still registered, the rejection of a \<^verbatim>\<open>play()\<close> promise that is still
  pending, or a message of the user (which clears the queue).
  \<open>sole_player a1 s\<close>: the player is playing element \<open>a1\<close>, whose \<^verbatim>\<open>play()\<close> promise
  has been fulfilled, and no other element can still report its end: none has an
  \<^verbatim>\<open>ended\<close> or \<^verbatim>\<open>error\<close> listener left or a pending promise. This is the state of a first
  item that is playing.
  \<open>holds_turn a1 s0 s\<close> relates a later state \<open>s\<close> to the state \<open>s0\<close> in which the item
  was enqueued: element \<open>a1\<close> is still the current one, no element has been created, no
  listener has been registered, and the queue of \<open>s0\<close> has only been extended.
  \<open>flags_of\<close> and \<open>tts_of\<close> are what these notions read of an element and of the
  state.
\<close>

fun reports_end :: "world \<Rightarrow> event \<Rightarrow> bool" where
  "reports_end s (AudioEnded a) = (a < length (audios s) \<and> endedArmed (audios s ! a))"
| "reports_end s (AudioError a) = (a < length (audios s) \<and> errorArmed (audios s ! a))"
| "reports_end s (PlayRejected a) = (a < length (audios s) \<and> playPending (audios s ! a))"
| "reports_end s (UserSend text) = True"
| "reports_end s _ = False"

definition sole_player :: "nat \<Rightarrow> world \<Rightarrow> bool" where
  "sole_player a1 s \<longleftrightarrow>
     playing s \<and> currentAudio s = Some a1 \<and> a1 < length (audios s) \<and>
     \<not> playPending (audios s ! a1) \<and>
     (\<forall>a < length (audios s). a \<noteq> a1 \<longrightarrow>
        \<not> endedArmed (audios s ! a) \<and> \<not> errorArmed (audios s ! a) \<and>
        \<not> playPending (audios s ! a))"

definition holds_turn :: "nat \<Rightarrow> world \<Rightarrow> world \<Rightarrow> bool" where
  "holds_turn a1 s0 s \<longleftrightarrow>
     playing s \<and> currentAudio s = Some a1 \<and> length (audios s) = length (audios s0) \<and>
     (\<forall>e. reports_end s e \<longrightarrow> reports_end s0 e) \<and>
     (\<exists>more. queue s = queue s0 @ more)"

definition flags_of :: "audio \<Rightarrow> bool \<times> bool \<times> bool" where
  "flags_of au = (endedArmed au, errorArmed au, playPending au)"

definition tts_of :: "world \<Rightarrow> bool \<times> nat option \<times> (bool \<times> bool \<times> bool) list \<times> item list" where
  "tts_of s = (playing s, currentAudio s, map flags_of (audios s), queue s)"

section \<open>Properties of the syllable scheduler\<close>

lemma vowel_loop_total:
  "snd (vowel_loop vs (ev, t)) - sum_list (map duration (fst (vowel_loop vs (ev, t)))) =
   t - sum_list (map duration ev)"
  by (induction vs arbitrary: ev t) auto

lemma vowel_loop_snd: "snd (vowel_loop vs (ev, t)) = t + 0.15 * real (length vs)"
  by (induction vs arbitrary: ev t) (auto simp: algebra_simps)

lemma vowel_loop_grows: "vs \<noteq> [] \<Longrightarrow> t < snd (vowel_loop vs (ev, t))"
proof -
  assume "vs \<noteq> []"
  then have "0 < real (length vs)" by simp
  then show ?thesis unfolding vowel_loop_snd by simp
qed

text \<open>What one token adds to the event list and to the running total.\<close>

lemma parse_tokens_step:
  assumes "tok \<noteq> []"
  obtains evs d where
    "parse_tokens (tok # toks) (ev, t) = parse_tokens toks (ev @ evs, t + d)"
    and "d = sum_list (map duration evs)" and "0 < d"
proof (cases "list_all is_sep tok")
  case True
  let ?d = "if list_ex is_long tok then 0.3 else 0.08 :: real"
  have "parse_tokens (tok # toks) (ev, t) =
        parse_tokens toks (ev @ [\<lparr>shape = None, weight = 0, duration = ?d\<rparr>], t + ?d)"
    using assms True by (simp add: Let_def)
  moreover have "?d = sum_list (map duration [\<lparr>shape = None, weight = 0, duration = ?d\<rparr>])"
    by simp
  moreover have "0 < ?d" by simp
  ultimately show ?thesis using that by blast
next
  case nsep: False
  show ?thesis
  proof (cases "filter is_vowel tok = []")
    case True
    let ?evs = "[\<lparr>shape = Some ''ih'', weight = 0.4, duration = 0.15\<rparr>,
                 \<lparr>shape = None, weight = 0, duration = 0.06 :: real\<rparr>]"
    have "parse_tokens (tok # toks) (ev, t) = parse_tokens toks (ev @ ?evs, t + 0.21)"
      using assms nsep True by (simp add: Let_def add.commute)
    moreover have "(0.21 :: real) = sum_list (map duration ?evs)" by simp
    ultimately show ?thesis using that [of ?evs "0.21"] by simp
  next
    case False
    obtain e1 t1 where vl: "vowel_loop (filter is_vowel tok) ([], 0) = (e1, t1)"
      by (cases "vowel_loop (filter is_vowel tok) ([], 0)")
    have shift: "vowel_loop vs (ev, t) = (ev @ fst (vowel_loop vs ([], 0)), t + snd (vowel_loop vs ([], 0)))"
      for vs
    proof (induction vs arbitrary: ev t rule: rev_induct)
      case Nil
      then show ?case by simp
    next
      case (snoc v vs)
      have app: "vowel_loop (xs @ [y]) (a, b) =
                 (fst (vowel_loop xs (a, b)) @
                    [\<lparr>shape = fst (vowel_entry y), weight = snd (vowel_entry y), duration = 0.12\<rparr>,
                     \<lparr>shape = None, weight = 0.1, duration = 0.03\<rparr>],
                  snd (vowel_loop xs (a, b)) + 0.12 + 0.03)" for xs y a b
        by (induction xs arbitrary: a b) auto
      show ?case
        unfolding app by (simp add: snoc.IH [of ev t])
    qed
    have t1: "t1 = sum_list (map duration e1)"
      using vowel_loop_total [of "filter is_vowel tok" "[]" 0] vl by simp
    have pos: "0 < t1"
      using vowel_loop_grows [OF False, of 0 "[]"] vl by simp
    let ?evs = "e1 @ [\<lparr>shape = None, weight = 0, duration = 0.06 :: real\<rparr>]"
    have "parse_tokens (tok # toks) (ev, t) = parse_tokens toks (ev @ ?evs, t + (t1 + 0.06))"
      using assms nsep False shift [of "filter is_vowel tok"] vl
      by (simp add: Let_def add.assoc)
    moreover have "t1 + 0.06 = sum_list (map duration ?evs)"
      using t1 by simp
    moreover have "0 < t1 + 0.06" using pos by simp
    ultimately show ?thesis using that by blast
  qed
qed

lemma parse_tokens_total:
  "snd (parse_tokens toks (ev, t)) - sum_list (map duration (fst (parse_tokens toks (ev, t)))) =
   t - sum_list (map duration ev)"
proof (induction toks arbitrary: ev t)
  case Nil
  then show ?case by simp
next
  case (Cons tok toks)
  show ?case
  proof (cases "tok = []")
    case True
    then show ?thesis using Cons.IH by simp
  next
    case False
    then obtain evs d where
      st: "parse_tokens (tok # toks) (ev, t) = parse_tokens toks (ev @ evs, t + d)"
      and d: "d = sum_list (map duration evs)"
      using parse_tokens_step [of tok toks ev t] by blast
    show ?thesis
      unfolding st using Cons.IH [of "ev @ evs" "t + d"] d by simp
  qed
qed

lemma parse_tokens_mono: "t \<le> snd (parse_tokens toks (ev, t))"
proof (induction toks arbitrary: ev t)
  case Nil
  then show ?case by simp
next
  case (Cons tok toks)
  show ?case
  proof (cases "tok = []")
    case True
    then show ?thesis using Cons.IH by simp
  next
    case False
    then obtain evs d where
      st: "parse_tokens (tok # toks) (ev, t) = parse_tokens toks (ev @ evs, t + d)"
      and d: "0 < d"
      using parse_tokens_step [of tok toks ev t] by blast
    show ?thesis
      unfolding st using Cons.IH [of "t + d" "ev @ evs"] d by simp
  qed
qed

lemma parse_tokens_grows:
  "\<exists>tok \<in> set toks. tok \<noteq> [] \<Longrightarrow> t < snd (parse_tokens toks (ev, t))"
proof (induction toks arbitrary: ev t)
  case Nil
  then show ?case by simp
next
  case (Cons tok toks)
  show ?case
  proof (cases "tok = []")
    case True
    then show ?thesis using Cons by simp
  next
    case False
    then obtain evs d where
      st: "parse_tokens (tok # toks) (ev, t) = parse_tokens toks (ev @ evs, t + d)"
      and d: "0 < d"
      using parse_tokens_step [of tok toks ev t] by blast
    show ?thesis
      unfolding st using parse_tokens_mono [of "t + d" toks "ev @ evs"] d by simp
  qed
qed

lemma concat_split_go: "concat (split_go b cur str) = cur @ str"
  by (induction str arbitrary: b cur) auto

lemma split_text_nonempty: "str \<noteq> [] \<Longrightarrow> \<exists>tok \<in> set (split_text str). tok \<noteq> []"
proof (rule ccontr)
  assume "str \<noteq> []" and "\<not> (\<exists>tok \<in> set (split_text str). tok \<noteq> [])"
  then have "concat (split_text str) = []" by simp
  then show False using \<open>str \<noteq> []\<close> by (simp add: split_text_def concat_split_go)
qed

lemma sum_scaled:
  "sum_list (map duration (map (\<lambda>ev. ev\<lparr>duration := duration ev * c\<rparr>) evs)) =
   sum_list (map duration evs) * c"
  by (induction evs) (auto simp: algebra_simps)

text \<open>
  C1 (amended). For every text that is not empty and every finite target duration
  \<open>D > 0\<close>, the durations of the events of \<open>parse text D\<close> add up to \<open>D\<close> (in exact
  arithmetic), and each is the duration of the unscaled event (the one \<open>parse\<close> gives
  without a target duration, the parameter's default 0) times \<open>D\<close> over the unscaled
  total. The empty text has no events, and the guard \<^verbatim>\<open>totalDur > 0\<close> leaves it so.
\<close>

theorem parse_scaled_total:
  assumes "str \<noteq> []" and "0 < D"
  shows "sum_list (map duration (parse str (Num D))) = D \<and>
         map duration (parse str (Num D)) =
           map (\<lambda>ev. duration ev * (D / sum_list (map duration (parse str (Num 0)))))
             (parse str (Num 0))"
proof -
  obtain evs tot where pt: "parse_tokens (split_text str) ([], 0) = (evs, tot)"
    by (cases "parse_tokens (split_text str) ([], 0)")
  have tot: "tot = sum_list (map duration evs)"
    using parse_tokens_total [of "split_text str" "[]" 0] pt by simp
  have pos: "0 < tot"
    using parse_tokens_grows [OF split_text_nonempty [OF assms(1)], of 0 "[]"] pt by simp
  have p0: "parse str (Num 0) = evs"
    by (simp add: parse_def pt)
  have pD: "parse str (Num D) = map (\<lambda>ev. ev\<lparr>duration := duration ev * (D / tot)\<rparr>) evs"
    using assms(2) pos by (simp add: parse_def pt)
  have "sum_list (map duration (parse str (Num D))) = D"
    unfolding pD sum_scaled using pos by (simp add: tot [symmetric])
  moreover have "map duration (parse str (Num D)) =
      map (\<lambda>ev. duration ev * (D / sum_list (map duration (parse str (Num 0))))) (parse str (Num 0))"
    using tot by (simp add: pD p0 o_def)
  ultimately show ?thesis by simp
qed

text \<open>The text "Hi" (0x48 0x69) with a measured duration of 1.2 seconds.\<close>

theorem parse_scaled_total_witness:
  "[0x48, 0x69] \<noteq> ([] :: jsstring) \<and> (0 :: real) < 1.2 \<and>
   sum_list (map duration (parse [0x48, 0x69] (Num 1.2))) = 1.2"
proof -
  have ne: "[0x48, 0x69] \<noteq> ([] :: jsstring)" by simp
  have pos: "(0 :: real) < 1.2" by simp
  have "sum_list (map duration (parse [0x48, 0x69] (Num 1.2))) = 1.2"
    using parse_scaled_total [OF ne pos] by (rule conjunct1)
  then show ?thesis using ne pos by blast
qed

text \<open>
  The claim as stated fails at the empty text: with the target duration 1 there is no
  event, the sum is 0, and it misses the target by 1.
\<close>

theorem parse_empty_text_counterexample:
  "parse [] (Num 1) = [] \<and> \<bar>sum_list (map duration (parse [] (Num 1))) - 1\<bar> = 1"
  by (simp add: parse_def split_text_def)

section \<open>Characters outside ASCII\<close>

lemma vowel_ascii: "is_vowel c \<Longrightarrow> \<not> 127 < c"
  by (auto simp: is_vowel_def)

lemma not_class_h: "\<not> is_sep 0x68" "\<not> is_vowel 0x68" "\<not> is_long 0x68"
  by (simp_all add: is_sep_def is_space_def is_punct_def is_long_def is_vowel_def)

lemma long_sep: "is_long c \<Longrightarrow> is_sep c"
  by (simp add: is_sep_def is_punct_def)

lemma as_consonant_sep [simp]: "is_sep (as_consonant c) = is_sep c"
  by (simp add: as_consonant_def not_class_h)

lemma as_consonant_long [simp]: "is_long (as_consonant c) = is_long c"
  using long_sep [of c] by (auto simp: as_consonant_def not_class_h)

lemma as_consonant_vowel [simp]: "is_vowel (as_consonant c) = is_vowel c"
  using vowel_ascii [of c] by (auto simp: as_consonant_def not_class_h)

lemma as_consonant_vowel_id: "is_vowel c \<Longrightarrow> as_consonant c = c"
  using vowel_ascii [of c] by (auto simp: as_consonant_def)

lemma split_go_map:
  "split_go b (map as_consonant cur) (map as_consonant str) =
   map (map as_consonant) (split_go b cur str)"
proof (induction str arbitrary: b cur)
  case Nil
  then show ?case by simp
next
  case (Cons a str)
  show ?case
    using Cons.IH [of b "cur @ [a]"] Cons.IH [of "is_sep a" "[a]"] by auto
qed

lemma filter_vowel_map: "filter is_vowel (map as_consonant tok) = filter is_vowel tok"
  by (induction tok) (auto simp: as_consonant_vowel_id)

lemma parse_tokens_map:
  "parse_tokens (map (map as_consonant) toks) acc = parse_tokens toks acc"
proof (induction toks arbitrary: acc)
  case Nil
  then show ?case by simp
next
  case (Cons tok toks)
  obtain ev t where acc: "acc = (ev, t)" by (cases acc)
  show ?case
    unfolding acc
    by (simp add: Cons.IH filter_vowel_map list_all_iff list_ex_iff Let_def)
qed

lemma parse_map: "parse (map as_consonant str) D = parse str D"
  using split_go_map [of False "[]" str]
  by (simp add: parse_def split_text_def parse_tokens_map)

lemma split_go_word: "\<forall>c \<in> set str. \<not> is_sep c \<Longrightarrow> split_go False cur str = [cur @ str]"
  by (induction str arbitrary: cur) auto

lemma parse_only_nonascii:
  assumes "str \<noteq> []" and "\<forall>c \<in> set str. 127 < c \<and> \<not> is_sep c"
  shows "parse str (Num 0) =
           [\<lparr>shape = Some ''ih'', weight = 0.4, duration = 0.15\<rparr>,
            \<lparr>shape = None, weight = 0, duration = 0.06\<rparr>]"
proof -
  have sp: "split_text str = [str]"
    using assms(2) split_go_word [of str "[]"] by (simp add: split_text_def)
  have nv: "filter is_vowel str = []"
    using assms(2) vowel_ascii by (auto simp: filter_empty_conv)
  have ns: "\<not> list_all is_sep str"
    using assms by (cases str) auto
  show ?thesis
    using assms(1) nv ns by (simp add: parse_def sp Let_def)
qed

lemma parse_main_each: "parse_main str evs = evs @ map char_event str"
  by (induction str arbitrary: evs) auto

lemma char_event_nonascii:
  "127 < c \<Longrightarrow>
   shape (char_event c) = None \<and> weight (char_event c) = 0 \<and>
   duration (char_event c) = (if c = 0x2026 then 0.045 else 0.036)"
  by (auto simp: char_event_def is_punct_def is_long_def CHAR_DURATION_def split: prod.splits)

text \<open>
  C8 (amended). Neither scheduler fails on any text (both are total functions of the
  code units). In src/main.js every code unit yields exactly one event, and a code unit
  above 127 yields a neutral one: shape null, weight 0, duration 0.036 s (0.045 s for the
  ellipsis U+2026). In src/unnamed/part\_003 characters are not mapped one by one: a code
  unit above 127 that is not in the separator class is treated exactly as a consonant
  (the events are those of the text with \<open>h\<close> in its place); it gets no event of its
  own, and a word made only of such code units (an emoji standing alone) is a word
  without vowel: it yields the small-open event (shape ih, weight 0.4, 0.15 s) and the
  0.06 s pause after the word.
\<close>

theorem nonascii_events:
  "(parse_main str [] = map char_event str \<and>
    (\<forall>c. 127 < c \<longrightarrow>
       shape (char_event c) = None \<and> weight (char_event c) = 0 \<and>
       duration (char_event c) = (if c = 0x2026 then 0.045 else 0.036))) \<and>
   parse (map as_consonant str) D = parse str D \<and>
   (str \<noteq> [] \<and> (\<forall>c \<in> set str. 127 < c \<and> \<not> is_sep c) \<longrightarrow>
      parse str (Num 0) =
        [\<lparr>shape = Some ''ih'', weight = 0.4, duration = 0.15\<rparr>,
         \<lparr>shape = None, weight = 0, duration = 0.06\<rparr>])"
  using parse_main_each [of str "[]"] char_event_nonascii parse_map [of str D]
    parse_only_nonascii [of str]
  by simp

text \<open>The letter e with acute accent (0xE9), alone and after the consonant c (0x63).\<close>

theorem nonascii_events_witness:
  "(127 :: code_unit) < 0xE9 \<and> \<not> is_sep 0xE9 \<and>
   shape (char_event 0xE9) = None \<and> weight (char_event 0xE9) = 0 \<and>
   duration (char_event 0xE9) = 0.036 \<and>
   parse [0xE9] (Num 0) =
     [\<lparr>shape = Some ''ih'', weight = 0.4, duration = 0.15\<rparr>,
      \<lparr>shape = None, weight = 0, duration = 0.06\<rparr>]"
proof -
  have hi: "(127 :: code_unit) < 0xE9" by simp
  have ns: "\<not> is_sep 0xE9"
    by (simp add: is_sep_def is_space_def is_punct_def is_long_def)
  have hyp: "[0xE9] \<noteq> ([] :: jsstring) \<and> (\<forall>c \<in> set [0xE9 :: code_unit]. 127 < c \<and> \<not> is_sep c)"
    using hi ns by simp
  note th = nonascii_events [of "[0xE9]" "Num 0"]
  have ev: "shape (char_event 0xE9) = None \<and> weight (char_event 0xE9) = 0 \<and>
            duration (char_event 0xE9) = (if (0xE9 :: code_unit) = 0x2026 then 0.045 else 0.036)"
    using th hi by blast
  have pr: "parse [0xE9] (Num 0) =
     [\<lparr>shape = Some ''ih'', weight = 0.4, duration = 0.15\<rparr>,
      \<lparr>shape = None, weight = 0, duration = 0.06\<rparr>]"
    using th hyp by blast
  show ?thesis using hi ns ev pr by simp
qed

text \<open>
  The claim as stated fails in src/unnamed/part\_003 at the text made of the one emoji
  U+1F600 (the surrogate pair 0xD83D 0xDE00): its first event is a mouth shape.
\<close>

theorem emoji_mouth_shape_counterexample:
  "parse [0xD83D, 0xDE00] (Num 0) =
     [\<lparr>shape = Some ''ih'', weight = 0.4, duration = 0.15\<rparr>,
      \<lparr>shape = None, weight = 0, duration = 0.06\<rparr>]"
  by (simp add: parse_def split_text_def is_sep_def is_space_def is_punct_def is_long_def
      is_vowel_def)

section \<open>Properties of the audio queue\<close>

lemmas face_defs = stopSpeaking_def setTimeout_def clearTimeout_def upd_audio_def

lemma playNext_from_none:
  "dropWhile (\<lambda>it. \<not> ok (item_b64 it)) q = [] \<Longrightarrow>
   playNext_from ok q s =
     (let s1 = stopSpeaking (s\<lparr>playing := False, queue := (if q = [] then queue s else [])\<rparr>)
      in (setTimeout s1)\<lparr>neutralTimer := Some (nextTimer s1)\<rparr>)"
proof (induction q arbitrary: s)
  case Nil
  then show ?case by (simp add: face_defs Let_def)
next
  case (Cons it rest)
  from Cons.prems have bad: "\<not> ok (item_b64 it)" and rest: "dropWhile (\<lambda>it. \<not> ok (item_b64 it)) rest = []"
    by (auto split: if_splits)
  show ?case
    using bad Cons.IH [OF rest, of "s\<lparr>queue := rest, playing := False\<rparr>"]
    by (simp add: Let_def face_defs)
qed

lemma playNext_from_some:
  "dropWhile (\<lambda>it. \<not> ok (item_b64 it)) q = x # r \<Longrightarrow>
   playNext_from ok q s =
     s\<lparr>playing := True, queue := r, audios := audios s @ [newAudio x],
       currentAudio := Some (length (audios s))\<rparr>"
proof (induction q arbitrary: s)
  case Nil
  then show ?case by simp
next
  case (Cons it rest)
  show ?case
  proof (cases "ok (item_b64 it)")
    case True
    then show ?thesis using Cons.prems by (simp add: Let_def)
  next
    case False
    then have rest: "dropWhile (\<lambda>it. \<not> ok (item_b64 it)) rest = x # r"
      using Cons.prems by simp
    show ?thesis
      using False Cons.IH [OF rest, of "s\<lparr>queue := rest, playing := False\<rparr>"]
      by (simp add: Let_def)
  qed
qed

lemma playNext_none:
  "dropWhile (\<lambda>it. \<not> ok (item_b64 it)) (queue s) = [] \<Longrightarrow>
   playNext ok s =
     (let s1 = stopSpeaking (s\<lparr>playing := False, queue := []\<rparr>)
      in (setTimeout s1)\<lparr>neutralTimer := Some (nextTimer s1)\<rparr>)"
  unfolding playNext_def
  by (cases "queue s = []") (simp_all add: playNext_from_none Let_def face_defs)

lemma playNext_some:
  "dropWhile (\<lambda>it. \<not> ok (item_b64 it)) (queue s) = x # r \<Longrightarrow>
   playNext ok s =
     s\<lparr>playing := True, queue := r, audios := audios s @ [newAudio x],
       currentAudio := Some (length (audios s))\<rparr>"
  unfolding playNext_def by (rule playNext_from_some)

lemma playNext_playing: "playNext ok (s\<lparr>playing := b\<rparr>) = playNext ok s"
proof (cases "dropWhile (\<lambda>it. \<not> ok (item_b64 it)) (queue s)")
  case Nil
  then have "dropWhile (\<lambda>it. \<not> ok (item_b64 it)) (queue (s\<lparr>playing := b\<rparr>)) = []" by simp
  from playNext_none [OF this] playNext_none [OF Nil] show ?thesis
    by (simp add: face_defs Let_def)
next
  case (Cons x r)
  then have "dropWhile (\<lambda>it. \<not> ok (item_b64 it)) (queue (s\<lparr>playing := b\<rparr>)) = x # r" by simp
  from playNext_some [OF this] playNext_some [OF Cons] show ?thesis
    by simp
qed

lemma zero_all_eq: "zero_all ns m = (\<lambda>k. if k \<in> set ns then Some 0 else m k)"
  unfolding zero_all_def by (induction ns arbitrary: m) (auto simp: fun_eq_iff)

lemma zero_all_idem: "zero_all ns (zero_all ns m) = zero_all ns m"
  by (auto simp: zero_all_eq fun_eq_iff)

lemma onEnded_none:
  assumes "dropWhile (\<lambda>it. \<not> ok (item_b64 it)) (queue s) = []"
  shows "onEnded ok a s =
     (let s1 = stopSpeaking ((upd_audio a (\<lambda>au. au\<lparr>urlLive := False\<rparr>) s)
                 \<lparr>currentAudio := None, playing := False, queue := []\<rparr>)
      in (setTimeout s1)\<lparr>neutralTimer := Some (nextTimer s1)\<rparr>)"
proof -
  let ?s3 = "(upd_audio a (\<lambda>au. au\<lparr>urlLive := False\<rparr>) (stopSpeaking s))\<lparr>currentAudio := None\<rparr>"
  have q: "dropWhile (\<lambda>it. \<not> ok (item_b64 it)) (queue ?s3) = []"
    using assms by (simp add: face_defs)
  show ?thesis
    unfolding onEnded_def Let_def playNext_none [OF q]
    by (simp add: face_defs Let_def zero_all_idem)
qed

lemma onEnded_some:
  assumes "dropWhile (\<lambda>it. \<not> ok (item_b64 it)) (queue s) = x # r"
  shows "onEnded ok a s =
     (stopSpeaking (upd_audio a (\<lambda>au. au\<lparr>urlLive := False\<rparr>) s))
       \<lparr>playing := True, queue := r,
        audios := (audios s)[a := (audios s ! a)\<lparr>urlLive := False\<rparr>] @ [newAudio x],
        currentAudio := Some (length (audios s))\<rparr>"
proof -
  let ?s3 = "(upd_audio a (\<lambda>au. au\<lparr>urlLive := False\<rparr>) (stopSpeaking s))\<lparr>currentAudio := None\<rparr>"
  have q: "dropWhile (\<lambda>it. \<not> ok (item_b64 it)) (queue ?s3) = x # r"
    using assms by (simp add: face_defs)
  show ?thesis
    unfolding onEnded_def Let_def playNext_some [OF q]
    by (simp add: face_defs Let_def)
qed

lemma onEnded_released: "a < length (audios s) \<Longrightarrow> \<not> urlLive (audios (onEnded ok a s) ! a)"
proof (cases "dropWhile (\<lambda>it. \<not> ok (item_b64 it)) (queue s)")
  case Nil
  assume "a < length (audios s)"
  then show ?thesis unfolding onEnded_none [OF Nil] by (simp add: face_defs Let_def)
next
  case (Cons x r)
  assume "a < length (audios s)"
  then show ?thesis unfolding onEnded_some [OF Cons] by (simp add: face_defs nth_append)
qed

lemma onEnded_queue:
  "queue (onEnded ok a s) = tl (dropWhile (\<lambda>it. \<not> ok (item_b64 it)) (queue s))"
proof (cases "dropWhile (\<lambda>it. \<not> ok (item_b64 it)) (queue s)")
  case Nil
  show ?thesis unfolding onEnded_none [OF Nil] Nil by (simp add: face_defs Let_def)
next
  case (Cons x r)
  show ?thesis unfolding onEnded_some [OF Cons] Cons by (simp add: face_defs)
qed

lemma onEnded_next:
  "(case dropWhile (\<lambda>it. \<not> ok (item_b64 it)) (queue s) of
      [] \<Rightarrow> \<not> playing (onEnded ok a s) \<and> currentAudio (onEnded ok a s) = None
    | x # r \<Rightarrow>
        playing (onEnded ok a s) \<and> currentAudio (onEnded ok a s) = Some (length (audios s)) \<and>
        audios (onEnded ok a s) ! length (audios s) = newAudio x)"
proof (cases "dropWhile (\<lambda>it. \<not> ok (item_b64 it)) (queue s)")
  case Nil
  show ?thesis unfolding onEnded_none [OF Nil] Nil by (simp add: face_defs Let_def)
next
  case (Cons x r)
  show ?thesis unfolding onEnded_some [OF Cons] Cons by (simp add: face_defs nth_append)
qed

lemma playNext_skip:
  "\<not> ok (item_b64 it) \<Longrightarrow>
   playNext ok (s\<lparr>queue := it # rest\<rparr>) = playNext ok (s\<lparr>queue := rest\<rparr>)"
  using playNext_playing [of ok False "s\<lparr>queue := rest\<rparr>"]
  by (simp add: playNext_def Let_def)

text \<open>
  One call of a failure handler does what natural completion does. The \<^verbatim>\<open>error\<close>
  listener and the handler of a rejected \<^verbatim>\<open>play()\<close> leave exactly the state the
  \<^verbatim>\<open>ended\<close> listener leaves. An item whose payload does not decode is passed over as if
  it had not been queued. The handlers release the element's object URL. The queue
  afterwards is the old queue without its leading undecodable items and without the
  first decodable item, which is the one now playing in a new element: the failed item
  is not in it again and is not the current element, and when no decodable item is left
  the player goes idle.
\<close>

lemma handler_advances:
  "onError atob_ok a s = onEnded atob_ok a s \<and>
   onPlayRejected atob_ok a s = onEnded atob_ok a s \<and>
   (\<not> atob_ok (item_b64 it) \<longrightarrow>
      playNext atob_ok (s\<lparr>queue := it # rest\<rparr>) = playNext atob_ok (s\<lparr>queue := rest\<rparr>)) \<and>
   (a < length (audios s) \<longrightarrow>
      \<not> urlLive (audios (onEnded atob_ok a s) ! a) \<and> currentAudio (onEnded atob_ok a s) \<noteq> Some a) \<and>
   queue (onEnded atob_ok a s) = tl (dropWhile (\<lambda>it. \<not> atob_ok (item_b64 it)) (queue s)) \<and>
   (case dropWhile (\<lambda>it. \<not> atob_ok (item_b64 it)) (queue s) of
      [] \<Rightarrow> \<not> playing (onEnded atob_ok a s) \<and> currentAudio (onEnded atob_ok a s) = None
    | x # r \<Rightarrow>
        playing (onEnded atob_ok a s) \<and>
        currentAudio (onEnded atob_ok a s) = Some (length (audios s)) \<and>
        audios (onEnded atob_ok a s) ! length (audios s) = newAudio x)"
proof -
  have cur: "a < length (audios s) \<Longrightarrow> currentAudio (onEnded atob_ok a s) \<noteq> Some a"
    using onEnded_next [where ok = atob_ok and s = s and a = a]
    by (cases "dropWhile (\<lambda>it. \<not> atob_ok (item_b64 it)) (queue s)") auto
  have "onError atob_ok a s = onEnded atob_ok a s"
    by (simp add: onError_def onEnded_def)
  moreover have "onPlayRejected atob_ok a s = onEnded atob_ok a s"
    by (simp add: onPlayRejected_def onEnded_def playNext_playing Let_def)
  ultimately show ?thesis
    using playNext_skip [where ok = atob_ok and it = it and s = s and rest = rest]
      onEnded_released [where ok = atob_ok and s = s and a = a] cur
      onEnded_queue [where ok = atob_ok and s = s and a = a]
      onEnded_next [where ok = atob_ok and s = s and a = a]
    by blast
qed

text \<open>
  In the sample session an item whose payload \<^verbatim>\<open>atob\<close> rejects is passed over: the
  player starts the item behind it.
\<close>

lemma undecodable_item_skipped:
  "playNext demo_ok (demo_playing\<lparr>queue := [demo_bad, demo_second]\<rparr>) =
   playNext demo_ok (demo_playing\<lparr>queue := [demo_second]\<rparr>)"
  using playNext_skip [where ok = demo_ok and it = demo_bad and s = demo_playing
      and rest = "[demo_second]"]
  by (simp add: demo_ok_def demo_bad_def)

text \<open>Evaluation of the sample session.\<close>

lemmas demo_defs = demo_ok_def demo_first_def demo_bad_def demo_second_def demo_playing_def

lemmas op_defs = world0_def init_def handle_def enqueue_def playNext_def truthy_def
  clearTimeout_def setTimeout_def stopSpeaking_def startSpeaking_def setEmotion_def upd_audio_def
  onPlaying_def newAudio_def EXPR_NAMES_get_def EXPR_NAMES_def Let_def

lemma demo_playing_tts:
  "playing demo_playing \<and> currentAudio demo_playing = Some 0 \<and> queue demo_playing = [] \<and>
   length (audios demo_playing) = 1 \<and> activeExpr demo_playing = ''happy'' \<and>
   neutralTimer demo_playing = None \<and>
   \<not> playPending (audios demo_playing ! 0)"
  by (simp add: demo_defs op_defs)

lemmas ev_defs = onEnded_def onError_def onPlayRejected_def demo_msg_def demo_third_def

lemma demo_loading_eq:
  "playing demo_loading \<and> currentAudio demo_loading = Some 0 \<and>
   queue demo_loading = [demo_second, demo_third] \<and> length (audios demo_loading) = 1 \<and>
   audios demo_loading ! 0 = newAudio demo_first"
  by (simp add: demo_loading_def demo_defs op_defs ev_defs)

text \<open>
  C4 (the code departs from the claim). A failure is handled as natural completion is
  only when it is notified once. \<^verbatim>\<open>_playNext\<close> registers an \<^verbatim>\<open>error\<close> listener and a
  handler for the rejection of \<^verbatim>\<open>play()\<close> on the same element, each of which calls
  \<^verbatim>\<open>_playNext\<close>, and nothing records that the failure has been handled. When the browser
  cannot load the audio of an element it fires the \<^verbatim>\<open>error\<close> event and rejects the promise
  of \<^verbatim>\<open>play()\<close>. With the first item loading and two items queued behind it, natural
  completion starts the second item and leaves the third queued; the failure starts the
  second and at once the third: the queue is empty, both elements are playing, and
  \<^verbatim>\<open>_currentAudio\<close> is the third. With one item queued behind, the second call of
  \<^verbatim>\<open>_playNext\<close> finds the queue empty and marks the player idle while the second item
  plays; the next item that arrives is started over it.
\<close>

theorem failure_notified_twice:
  "playing demo_loading \<and> currentAudio demo_loading = Some 0 \<and>
   queue demo_loading = [demo_second, demo_third] \<and>
   playPending (audios demo_loading ! 0) \<and> errorArmed (audios demo_loading ! 0) \<and>
   currentAudio (run demo_ok [AudioEnded 0] demo_loading) = Some 1 \<and>
   queue (run demo_ok [AudioEnded 0] demo_loading) = [demo_third] \<and>
   length (audios (run demo_ok [AudioEnded 0] demo_loading)) = 2 \<and>
   currentAudio (run demo_ok [AudioError 0, PlayRejected 0] demo_loading) = Some 2 \<and>
   queue (run demo_ok [AudioError 0, PlayRejected 0] demo_loading) = [] \<and>
   length (audios (run demo_ok [AudioError 0, PlayRejected 0] demo_loading)) = 3 \<and>
   audios (run demo_ok [AudioError 0, PlayRejected 0] demo_loading) ! 1 = newAudio demo_second \<and>
   audios (run demo_ok [AudioError 0, PlayRejected 0] demo_loading) ! 2 = newAudio demo_third \<and>
   \<not> paused (newAudio demo_second) \<and>
   \<not> playing (run demo_ok [AudioError 0, PlayRejected 0] demo_loading_two) \<and>
   currentAudio (run demo_ok [AudioError 0, PlayRejected 0] demo_loading_two) = None \<and>
   audios (run demo_ok [AudioError 0, PlayRejected 0] demo_loading_two) ! 1 = newAudio demo_second \<and>
   currentAudio
     (run demo_ok [AudioError 0, PlayRejected 0, Message (demo_msg demo_third)] demo_loading_two) =
     Some 2 \<and>
   \<not> paused (audios
     (run demo_ok [AudioError 0, PlayRejected 0, Message (demo_msg demo_third)] demo_loading_two) ! 1)"
  by (simp add: demo_loading_def demo_loading_two_def demo_defs op_defs ev_defs)

subsection \<open>clear\<close>

lemma clear_eq:
  "clear s =
     s\<lparr>queue := [],
       audios := (case currentAudio s of
                    Some a \<Rightarrow> (audios s)[a := (audios s ! a)\<lparr>paused := True\<rparr>]
                  | None \<Rightarrow> audios s),
       currentAudio := None, speaking := False, phonQueue := [],
       lipTarget := zero_all LIP_SHAPES (lipTarget s),
       timers := (case neutralTimer s of None \<Rightarrow> timers s | Some i \<Rightarrow> removeAll i (timers s)),
       playing := False\<rparr>"
  by (cases "currentAudio s"; cases "neutralTimer s") (simp_all add: clear_def face_defs Let_def)

section \<open>Properties of the face controller\<close>

text \<open>
  A key that \<^verbatim>\<open>EXPR_NAMES\<close> inherits makes the inherited value the active expression.
\<close>

lemma inherited_key_active:
  "activeExpr (setEmotion ''constructor'' (init True 0 world0)) = native_function ''Object'' \<and>
   exprTarget (setEmotion ''constructor'' (init True 0 world0)) ''neutral'' = Some 0 \<and>
   exprTarget (setEmotion ''constructor'' (init True 0 world0)) (native_function ''Object'') =
     Some 1"
  by (simp add: setEmotion_def init_def world0_def EXPR_NAMES_get_def EXPR_NAMES_def
      Object_prototype_def native_function_def zero_all_def allNames_def Let_def)

text \<open>
  From the first \<^verbatim>\<open>face.init\<close> of a page on, any calls of \<^verbatim>\<open>setEmotion\<close> keep exactly one
  expression at target 1, the active one.
\<close>

lemma one_active_start: "one_active (init em rnd world0)"
  by (auto simp: one_active_def init_def world0_def zero_all_def allNames_def)

lemma one_active_setEmotion: "one_active s \<Longrightarrow> one_active (setEmotion key s)"
  by (auto simp: one_active_def setEmotion_def Let_def)

lemma one_active_first_session:
  "one_active (fold setEmotion keys (init em rnd world0))"
proof -
  have "one_active s \<Longrightarrow> one_active (fold setEmotion keys s)" for s
    by (induction keys arbitrary: s) (simp_all add: one_active_setEmotion)
  then show ?thesis using one_active_start by blast
qed

text \<open>
  C6 (the code departs from the claim). The property above is lost when \<^verbatim>\<open>face.init\<close>
  runs again, which it does whenever another model is picked. It zeroes every expression target and sets neutral to 1, but keeps
  \<^verbatim>\<open>_activeExpr\<close>. After happy was active, the model was swapped and sad is requested,
  \<^verbatim>\<open>setEmotion\<close> clears the target of happy (already 0), not that of neutral: neutral and
  sad both have target 1. Requesting happy right after the swap does nothing at all,
  although the target of happy is 0.
\<close>

theorem reinit_two_active_expressions:
  "exprTarget (setEmotion ''sad'' (init True 0 (setEmotion ''happy'' (init True 0 world0))))
     ''neutral'' = Some 1 \<and>
   exprTarget (setEmotion ''sad'' (init True 0 (setEmotion ''happy'' (init True 0 world0))))
     ''sad'' = Some 1 \<and>
   setEmotion ''happy'' (init True 0 (setEmotion ''happy'' (init True 0 world0))) =
     init True 0 (setEmotion ''happy'' (init True 0 world0)) \<and>
   exprTarget (init True 0 (setEmotion ''happy'' (init True 0 world0))) ''happy'' = Some 0"
  by (simp add: setEmotion_def init_def world0_def EXPR_NAMES_get_def EXPR_NAMES_def zero_all_def
      allNames_def Let_def)

section \<open>Properties of the WebSocket client\<close>

lemma clear_fields:
  "sent (clear s) = sent s" "socket (clear s) = socket s" "actions (clear s) = actions s"
  "queue (clear s) = []" "\<not> playing (clear s)" "activeExpr (clear s) = activeExpr s"
  "exprTarget (clear s) = exprTarget s"
  by (simp_all add: clear_eq)

lemma setEmotion_fields:
  "sent (setEmotion k s) = sent s" "queue (setEmotion k s) = queue s"
  "playing (setEmotion k s) = playing s" "actions (setEmotion k s) = actions s"
  "audios (setEmotion k s) = audios s" "currentAudio (setEmotion k s) = currentAudio s"
  "socket (setEmotion k s) = socket s" "timers (setEmotion k s) = timers s"
  "neutralTimer (setEmotion k s) = neutralTimer s"
  by (simp_all add: setEmotion_def Let_def)

lemma setEmotion_active:
  "activeExpr (setEmotion k s) = EXPR_NAMES_get k"
  by (simp add: setEmotion_def Let_def)

text \<open>
  C10. While the socket is missing or not in the OPEN state, \<^verbatim>\<open>ws.send\<close> changes nothing
  at all, in either build: nothing is sent, nothing is kept for later, nothing is raised,
  and in src/unnamed/part\_003 the audio queue is not cleared and the thinking emotion is
  not set. In the OPEN state the message is sent, and part\_003 also clears the queue and
  makes relaxed (the preset of thinking) the active expression.
\<close>

theorem send_not_open:
  "(socket s \<noteq> Some OPEN \<longrightarrow> send str s = s \<and> send_main str s = s) \<and>
   (socket s = Some OPEN \<longrightarrow>
      sent (send str s) = sent s @ [str] \<and> queue (send str s) = [] \<and>
      \<not> playing (send str s) \<and> activeExpr (send str s) = ''relaxed'' \<and>
      sent (send_main str s) = sent s @ [str])"
  by (simp add: send_def send_main_def Let_def clear_fields setEmotion_fields setEmotion_active
      EXPR_NAMES_get_def EXPR_NAMES_def)

text \<open>The sample session never opened a socket; the same state with an open socket.\<close>

theorem send_not_open_witness:
  "socket demo_playing \<noteq> Some OPEN \<and> send [0x48, 0x69] demo_playing = demo_playing \<and>
   socket (demo_playing\<lparr>socket := Some OPEN\<rparr>) = Some OPEN \<and>
   sent (send [0x48, 0x69] (demo_playing\<lparr>socket := Some OPEN\<rparr>)) =
     sent (demo_playing\<lparr>socket := Some OPEN\<rparr>) @ [[0x48, 0x69]]"
proof -
  have closed: "socket demo_playing \<noteq> Some OPEN"
    by (simp add: demo_defs op_defs)
  have opened: "socket (demo_playing\<lparr>socket := Some OPEN\<rparr>) = Some OPEN" by simp
  show ?thesis
    using send_not_open [where s = demo_playing and str = "[0x48, 0x69]"]
      send_not_open [where s = "demo_playing\<lparr>socket := Some OPEN\<rparr>" and str = "[0x48, 0x69]"]
      closed opened
    by blast
qed

lemma playNext_frame:
  "actions (playNext ok s) = actions s \<and> exprTarget (playNext ok s) = exprTarget s \<and>
   activeExpr (playNext ok s) = activeExpr s \<and> exprCurrent (playNext ok s) = exprCurrent s"
proof (cases "dropWhile (\<lambda>it. \<not> ok (item_b64 it)) (queue s)")
  case Nil
  show ?thesis unfolding playNext_none [OF Nil] by (simp add: face_defs Let_def)
next
  case (Cons x r)
  show ?thesis unfolding playNext_some [OF Cons] by simp
qed

lemma enqueue_frame:
  "actions (enqueue ok b t e s) = actions s \<and> exprTarget (enqueue ok b t e s) = exprTarget s \<and>
   activeExpr (enqueue ok b t e s) = activeExpr s \<and> exprCurrent (enqueue ok b t e s) = exprCurrent s"
  by (cases "neutralTimer s") (simp_all add: enqueue_def Let_def playNext_frame clearTimeout_def)

text \<open>
  C9. A message whose type is not dialogue changes nothing. A dialogue message with an
  audio payload (a non-empty string) is handed to the audio queue with its text and
  emotion: apart from the action log the new state is that of \<^verbatim>\<open>ttsPlayer.enqueue\<close>, and
  the expression layer (targets, active expression, live weights) is untouched at that
  moment. A dialogue message without audio but with an emotion applies the emotion at
  once: apart from the action log the new state is that of \<^verbatim>\<open>face.setEmotion\<close>. An
  action, when present, is handed to \<^verbatim>\<open>handleAction\<close> whatever else the dialogue message
  carries; without one, no action is requested.
\<close>

theorem dialogue_dispatch:
  "(msg_type cmd \<noteq> Some ''dialogue'' \<longrightarrow> handle atob_ok cmd s = s) \<and>
   (msg_type cmd = Some ''dialogue'' \<and> msg_audioB64 cmd = Some b \<and> b \<noteq> [] \<longrightarrow>
      (handle atob_ok cmd s)\<lparr>actions := actions s\<rparr> =
        enqueue atob_ok b (msg_text cmd) (msg_emotion cmd) s \<and>
      exprTarget (handle atob_ok cmd s) = exprTarget s \<and>
      activeExpr (handle atob_ok cmd s) = activeExpr s \<and>
      exprCurrent (handle atob_ok cmd s) = exprCurrent s) \<and>
   (msg_type cmd = Some ''dialogue'' \<and> \<not> truthy (msg_audioB64 cmd) \<and>
    msg_emotion cmd = Some e \<and> e \<noteq> [] \<longrightarrow>
      (handle atob_ok cmd s)\<lparr>actions := actions s\<rparr> = setEmotion e s) \<and>
   (msg_type cmd = Some ''dialogue'' \<and> msg_action cmd = Some act \<and> act \<noteq> [] \<longrightarrow>
      actions (handle atob_ok cmd s) = actions s @ [act]) \<and>
   (\<not> truthy (msg_action cmd) \<longrightarrow> actions (handle atob_ok cmd s) = actions s)"
proof -
  have other: "msg_type cmd \<noteq> Some ''dialogue'' \<longrightarrow> handle atob_ok cmd s = s"
    by (simp add: handle_def)
  have audio: "msg_type cmd = Some ''dialogue'' \<and> msg_audioB64 cmd = Some b \<and> b \<noteq> [] \<longrightarrow>
      (handle atob_ok cmd s)\<lparr>actions := actions s\<rparr> =
        enqueue atob_ok b (msg_text cmd) (msg_emotion cmd) s \<and>
      exprTarget (handle atob_ok cmd s) = exprTarget s \<and>
      activeExpr (handle atob_ok cmd s) = activeExpr s \<and>
      exprCurrent (handle atob_ok cmd s) = exprCurrent s"
    using enqueue_frame [of atob_ok b "msg_text cmd" "msg_emotion cmd" s]
    by (cases "msg_action cmd") (auto simp: handle_def truthy_def Let_def)
  have emo: "msg_type cmd = Some ''dialogue'' \<and> \<not> truthy (msg_audioB64 cmd) \<and>
    msg_emotion cmd = Some e \<and> e \<noteq> [] \<longrightarrow>
      (handle atob_ok cmd s)\<lparr>actions := actions s\<rparr> = setEmotion e s"
    using setEmotion_fields(4) [of e s]
    by (cases "msg_action cmd") (auto simp: handle_def truthy_def Let_def)
  have act: "msg_type cmd = Some ''dialogue'' \<and> msg_action cmd = Some act \<and> act \<noteq> [] \<longrightarrow>
      actions (handle atob_ok cmd s) = actions s @ [act]"
    using enqueue_frame setEmotion_fields(4)
    by (auto simp: handle_def truthy_def Let_def split: option.splits)
  have noact: "\<not> truthy (msg_action cmd) \<longrightarrow> actions (handle atob_ok cmd s) = actions s"
    using enqueue_frame setEmotion_fields(4)
    by (auto simp: handle_def truthy_def Let_def split: option.splits)
  show ?thesis using other audio emo act noact by blast
qed

text \<open>The three sample messages, arriving while the first line plays.\<close>

theorem dialogue_dispatch_witness:
  "msg_type demo_msg_other \<noteq> Some ''dialogue'' \<and>
   handle demo_ok demo_msg_other demo_playing = demo_playing \<and>
   msg_type demo_msg_audio = Some ''dialogue'' \<and> msg_audioB64 demo_msg_audio = Some ''REVG'' \<and>
   activeExpr (handle demo_ok demo_msg_audio demo_playing) = activeExpr demo_playing \<and>
   actions (handle demo_ok demo_msg_audio demo_playing) = actions demo_playing @ [''dance.vrma''] \<and>
   \<not> truthy (msg_audioB64 demo_msg_emotion) \<and> msg_emotion demo_msg_emotion = Some ''sad'' \<and>
   (handle demo_ok demo_msg_emotion demo_playing)\<lparr>actions := actions demo_playing\<rparr> =
     setEmotion ''sad'' demo_playing \<and>
   \<not> truthy (msg_action demo_msg_emotion) \<and>
   actions (handle demo_ok demo_msg_emotion demo_playing) = actions demo_playing"
proof -
  have o: "msg_type demo_msg_other \<noteq> Some ''dialogue''"
    by (simp add: demo_msg_other_def)
  have a: "msg_type demo_msg_audio = Some ''dialogue'' \<and>
           msg_audioB64 demo_msg_audio = Some ''REVG'' \<and> ''REVG'' \<noteq> [] \<and>
           msg_action demo_msg_audio = Some ''dance.vrma'' \<and> ''dance.vrma'' \<noteq> []"
    by (simp add: demo_msg_audio_def)
  have e: "msg_type demo_msg_emotion = Some ''dialogue'' \<and>
           \<not> truthy (msg_audioB64 demo_msg_emotion) \<and>
           msg_emotion demo_msg_emotion = Some ''sad'' \<and> ''sad'' \<noteq> [] \<and>
           \<not> truthy (msg_action demo_msg_emotion)"
    by (simp add: demo_msg_emotion_def truthy_def)
  show ?thesis
    using o a e
      dialogue_dispatch [where cmd = demo_msg_other and s = demo_playing and atob_ok = demo_ok]
      dialogue_dispatch [where cmd = demo_msg_audio and s = demo_playing and atob_ok = demo_ok
        and b = "''REVG''" and act = "''dance.vrma''"]
      dialogue_dispatch [where cmd = demo_msg_emotion and s = demo_playing and atob_ok = demo_ok
        and e = "''sad''"]
    by blast
qed

section \<open>Properties of the blend layers\<close>

lemma lip_lerp_convex:
  assumes "0 \<le> d"
  shows "min c t \<le> lip_lerp d t c \<and> lip_lerp d t c \<le> max c t"
proof -
  let ?k = "min 1 (d * 12)"
  have k: "0 \<le> ?k" "?k \<le> 1" using assms by simp_all
  have eq: "lip_lerp d t c = (1 - ?k) * c + ?k * t"
    by (simp add: lip_lerp_def Let_def algebra_simps)
  show ?thesis
  proof (cases "c \<le> t")
    case True
    have "(1 - ?k) * c + ?k * c \<le> (1 - ?k) * c + ?k * t"
      using True k by (intro add_left_mono mult_left_mono) simp_all
    moreover have "(1 - ?k) * c + ?k * t \<le> (1 - ?k) * t + ?k * t"
      using True k by (intro add_right_mono mult_left_mono) simp_all
    ultimately show ?thesis using True unfolding eq by (simp add: algebra_simps)
  next
    case False
    then have tc: "t \<le> c" by simp
    have "(1 - ?k) * c + ?k * t \<le> (1 - ?k) * c + ?k * c"
      using tc k by (intro add_left_mono mult_left_mono) simp_all
    moreover have "(1 - ?k) * t + ?k * t \<le> (1 - ?k) * c + ?k * t"
      using tc k by (intro add_right_mono mult_left_mono) simp_all
    ultimately show ?thesis using tc unfolding eq by (simp add: algebra_simps)
  qed
qed

lemma lip_lerp_contract:
  assumes "0 \<le> d0" "d0 \<le> d"
  shows "\<bar>lip_lerp d t c - t\<bar> \<le> (1 - min 1 (d0 * 12)) * \<bar>c - t\<bar>"
proof -
  let ?k = "min 1 (d * 12)"
  have k: "0 \<le> ?k" "?k \<le> 1" using assms by simp_all
  have "lip_lerp d t c - t = (1 - ?k) * (c - t)"
    by (simp add: lip_lerp_def Let_def algebra_simps)
  then have "\<bar>lip_lerp d t c - t\<bar> = (1 - ?k) * \<bar>c - t\<bar>"
    using k by (simp add: abs_mult)
  moreover have "(1 - ?k) * \<bar>c - t\<bar> \<le> (1 - min 1 (d0 * 12)) * \<bar>c - t\<bar>"
    using assms by (intro mult_right_mono) (simp_all add: min_def)
  ultimately show ?thesis by simp
qed

lemma expr_lerp_convex:
  assumes "0 \<le> d"
  shows "min c t \<le> expr_lerp d t c \<and> expr_lerp d t c \<le> max c t"
proof (cases "\<bar>t - c\<bar> < 0.001")
  case True
  then show ?thesis by (simp add: expr_lerp_def Let_def)
next
  case False
  let ?k = "min 1 (d * 5.5)"
  have k: "0 \<le> ?k" "?k \<le> 1" using assms by simp_all
  have eq: "expr_lerp d t c = (1 - ?k) * c + ?k * t"
    using False by (simp add: expr_lerp_def Let_def algebra_simps)
  show ?thesis
  proof (cases "c \<le> t")
    case True
    have "(1 - ?k) * c + ?k * c \<le> (1 - ?k) * c + ?k * t"
      using True k by (intro add_left_mono mult_left_mono) simp_all
    moreover have "(1 - ?k) * c + ?k * t \<le> (1 - ?k) * t + ?k * t"
      using True k by (intro add_right_mono mult_left_mono) simp_all
    ultimately show ?thesis using True unfolding eq by (simp add: algebra_simps)
  next
    case nle: False
    then have tc: "t \<le> c" by simp
    have "(1 - ?k) * c + ?k * t \<le> (1 - ?k) * c + ?k * c"
      using tc k by (intro add_left_mono mult_left_mono) simp_all
    moreover have "(1 - ?k) * t + ?k * t \<le> (1 - ?k) * c + ?k * t"
      using tc k by (intro add_right_mono mult_left_mono) simp_all
    ultimately show ?thesis using tc unfolding eq by (simp add: algebra_simps)
  qed
qed

lemma expr_lerp_contract:
  assumes "0 \<le> d0" "d0 \<le> d"
  shows "\<bar>expr_lerp d t c - t\<bar> \<le> (1 - min 1 (d0 * 5.5)) * \<bar>c - t\<bar>"
proof (cases "\<bar>t - c\<bar> < 0.001")
  case True
  have "0 \<le> (1 - min 1 (d0 * 5.5)) * \<bar>c - t\<bar>"
    by (intro mult_nonneg_nonneg) simp_all
  then show ?thesis using True by (simp add: expr_lerp_def Let_def)
next
  case False
  let ?k = "min 1 (d * 5.5)"
  have k: "0 \<le> ?k" "?k \<le> 1" using assms by simp_all
  have "expr_lerp d t c - t = (1 - ?k) * (c - t)"
    using False by (simp add: expr_lerp_def Let_def algebra_simps)
  then have "\<bar>expr_lerp d t c - t\<bar> = (1 - ?k) * \<bar>c - t\<bar>"
    using k by (simp add: abs_mult)
  moreover have "(1 - ?k) * \<bar>c - t\<bar> \<le> (1 - min 1 (d0 * 5.5)) * \<bar>c - t\<bar>"
    using assms by (intro mult_right_mono) (simp_all add: min_def)
  ultimately show ?thesis by simp
qed

lemma iter_between:
  assumes step: "\<And>d c. 0 \<le> d \<Longrightarrow> min c t \<le> f d c \<and> f d c \<le> max c (t::real)"
    and "\<forall>d \<in> set ds. 0 \<le> d"
  shows "min c t \<le> fold f ds c \<and> fold f ds c \<le> max c t"
  using assms(2)
proof (induction ds arbitrary: c)
  case Nil
  then show ?case by simp
next
  case (Cons d ds)
  have a: "min c t \<le> f d c \<and> f d c \<le> max c t" using step [of d c] Cons.prems by simp
  have b: "min (f d c) t \<le> fold f ds (f d c) \<and> fold f ds (f d c) \<le> max (f d c) t"
    using Cons.IH [of "f d c"] Cons.prems by simp
  show ?case using a b by (simp add: min_def max_def split: if_splits) 
qed

lemma iter_contract:
  assumes step: "\<And>d c. d0 \<le> d \<Longrightarrow> \<bar>f d c - t\<bar> \<le> q * \<bar>c - (t::real)\<bar>"
    and q: "0 \<le> q" and "\<forall>d \<in> set ds. d0 \<le> d"
  shows "\<bar>fold f ds c - t\<bar> \<le> q ^ length ds * \<bar>c - t\<bar>"
  using assms(3)
proof (induction ds arbitrary: c)
  case Nil
  then show ?case by simp
next
  case (Cons d ds)
  have a: "\<bar>f d c - t\<bar> \<le> q * \<bar>c - t\<bar>" using step [of d c] Cons.prems by simp
  have b: "\<bar>fold f ds (f d c) - t\<bar> \<le> q ^ length ds * \<bar>f d c - t\<bar>"
    using Cons.IH [of "f d c"] Cons.prems by simp
  have "q ^ length ds * \<bar>f d c - t\<bar> \<le> q ^ length ds * (q * \<bar>c - t\<bar>)"
    using a q by (intro mult_left_mono) simp_all
  then show ?case using b by (simp add: mult.assoc mult.left_commute)
qed

lemma iter_converges:
  assumes step: "\<And>d c. d0 \<le> d \<Longrightarrow> \<bar>f d c - t\<bar> \<le> q * \<bar>c - (t::real)\<bar>"
    and q: "0 \<le> q" "q < 1" and eps: "0 < eps"
  shows "\<exists>N. \<forall>ds. N \<le> length ds \<and> (\<forall>d \<in> set ds. d0 \<le> d) \<longrightarrow> \<bar>fold f ds c - t\<bar> < eps"
proof -
  have "0 < eps / (\<bar>c - t\<bar> + 1)" using eps by simp
  then obtain N where N: "q ^ N < eps / (\<bar>c - t\<bar> + 1)"
    using real_arch_pow_inv [of "eps / (\<bar>c - t\<bar> + 1)" q] q by blast
  have "\<bar>fold f ds c - t\<bar> < eps" if len: "N \<le> length ds" and ds: "\<forall>d \<in> set ds. d0 \<le> d" for ds
  proof -
    have "\<bar>fold f ds c - t\<bar> \<le> q ^ length ds * \<bar>c - t\<bar>"
      using iter_contract [of d0 f t q ds c] step q ds by blast
    also have "\<dots> \<le> q ^ N * \<bar>c - t\<bar>"
      using power_decreasing [OF len, of q] q by (intro mult_right_mono) simp_all
    also have "\<dots> \<le> q ^ N * (\<bar>c - t\<bar> + 1)"
      using q by (intro mult_left_mono) simp_all
    also have "\<dots> < eps"
      using N by (simp add: pos_less_divide_eq)
    finally show ?thesis .
  qed
  then show ?thesis by blast
qed

lemma lipLerp_current:
  "n \<in> set LIP_SHAPES \<Longrightarrow>
   get0 (lipCurrent (lipLerp d s)) n = lip_lerp d (get0 (lipTarget s) n) (get0 (lipCurrent s) n)"
  by (auto simp: lipLerp_def LIP_SHAPES_def get0_def)

lemma lipLerp_target: "lipTarget (lipLerp d s) = lipTarget s"
  by (simp add: lipLerp_def)

lemma lipLerp_fold:
  "n \<in> set LIP_SHAPES \<Longrightarrow>
   get0 (lipCurrent (fold lipLerp ds s)) n =
     fold (\<lambda>d c. lip_lerp d (get0 (lipTarget s) n) c) ds (get0 (lipCurrent s) n) \<and>
   lipTarget (fold lipLerp ds s) = lipTarget s"
proof (induction ds arbitrary: s)
  case Nil
  then show ?case by simp
next
  case (Cons d ds)
  show ?case
    using Cons.IH [OF Cons.prems, of "lipLerp d s"] lipLerp_current [OF Cons.prems, of d s]
    by (simp add: lipLerp_target)
qed

lemma exprCrossFade_current:
  "exprCurrent s name = Some c \<Longrightarrow>
   exprCurrent (exprCrossFade d s) name = Some (expr_lerp d (get0 (exprTarget s) name) c)"
  by (simp add: exprCrossFade_def)

lemma exprCrossFade_fold:
  "exprCurrent s name = Some c \<Longrightarrow>
   exprCurrent (fold exprCrossFade ds s) name =
     Some (fold (\<lambda>d c. expr_lerp d (get0 (exprTarget s) name) c) ds c) \<and>
   exprTarget (fold exprCrossFade ds s) = exprTarget s"
proof (induction ds arbitrary: s c)
  case Nil
  then show ?case by simp
next
  case (Cons d ds)
  have t: "exprTarget (exprCrossFade d s) = exprTarget s" by (simp add: exprCrossFade_def)
  show ?case
    using Cons.IH [OF exprCrossFade_current [OF Cons.prems, of d]] by (simp add: t)
qed


text \<open>
  C2 (amended). For every lip shape and every tracked expression shape whose live weight
  and target start in [0,1]: after any sequence of ticks of the layer with non-negative
  delta and the target fixed, the live weight is in [0,1] and lies between its starting
  value and the target, so it never overshoots. When every tick's delta is at least some
  \<open>d0 > 0\<close>, then for every \<open>eps > 0\<close> there is a number of ticks after which the
  live weight is within \<open>eps\<close> of the target. (Ticks with delta 0 move nothing.)
\<close>

theorem blend_layers_converge:
  assumes n: "n \<in> set LIP_SHAPES"
    and lt: "0 \<le> get0 (lipTarget s) n" "get0 (lipTarget s) n \<le> 1"
    and lc: "0 \<le> get0 (lipCurrent s) n" "get0 (lipCurrent s) n \<le> 1"
    and ec: "exprCurrent s name = Some c" "0 \<le> c" "c \<le> 1"
    and et: "0 \<le> get0 (exprTarget s) name" "get0 (exprTarget s) name \<le> 1"
    and ds: "\<forall>d \<in> set ds. 0 \<le> d"
    and pos: "0 < d0" "0 < eps"
  shows "(0 \<le> get0 (lipCurrent (fold lipLerp ds s)) n \<and>
          get0 (lipCurrent (fold lipLerp ds s)) n \<le> 1 \<and>
          min (get0 (lipCurrent s) n) (get0 (lipTarget s) n) \<le> get0 (lipCurrent (fold lipLerp ds s)) n \<and>
          get0 (lipCurrent (fold lipLerp ds s)) n \<le> max (get0 (lipCurrent s) n) (get0 (lipTarget s) n)) \<and>
         (0 \<le> get0 (exprCurrent (fold exprCrossFade ds s)) name \<and>
          get0 (exprCurrent (fold exprCrossFade ds s)) name \<le> 1 \<and>
          min c (get0 (exprTarget s) name) \<le> get0 (exprCurrent (fold exprCrossFade ds s)) name \<and>
          get0 (exprCurrent (fold exprCrossFade ds s)) name \<le> max c (get0 (exprTarget s) name)) \<and>
         (\<exists>N. \<forall>ds'. N \<le> length ds' \<and> (\<forall>d \<in> set ds'. d0 \<le> d) \<longrightarrow>
            \<bar>get0 (lipCurrent (fold lipLerp ds' s)) n - get0 (lipTarget s) n\<bar> < eps \<and>
            \<bar>get0 (exprCurrent (fold exprCrossFade ds' s)) name - get0 (exprTarget s) name\<bar> < eps)"
proof -
  let ?lt = "get0 (lipTarget s) n" and ?lc = "get0 (lipCurrent s) n"
  let ?et = "get0 (exprTarget s) name"
  let ?lf = "\<lambda>d c. lip_lerp d ?lt c" and ?ef = "\<lambda>d c. expr_lerp d ?et c"
  have lipv: "get0 (lipCurrent (fold lipLerp xs s)) n = fold ?lf xs ?lc" for xs
    using lipLerp_fold [OF n, of xs s] by simp
  have exprv: "get0 (exprCurrent (fold exprCrossFade xs s)) name = fold ?ef xs c" for xs
    using exprCrossFade_fold [OF ec(1), of xs] by (simp add: get0_def)
  have lb: "min ?lc ?lt \<le> fold ?lf ds ?lc \<and> fold ?lf ds ?lc \<le> max ?lc ?lt"
    using iter_between [of ?lt ?lf ds ?lc] lip_lerp_convex ds by blast
  have eb: "min c ?et \<le> fold ?ef ds c \<and> fold ?ef ds c \<le> max c ?et"
    using iter_between [of ?et ?ef ds c] expr_lerp_convex ds by blast
  have part1: "0 \<le> fold ?lf ds ?lc \<and> fold ?lf ds ?lc \<le> 1"
    using lb lt lc by (simp add: min_def max_def split: if_splits)
  have part2: "0 \<le> fold ?ef ds c \<and> fold ?ef ds c \<le> 1"
    using eb et ec(2,3) by (simp add: min_def max_def split: if_splits)
  have ql: "0 \<le> 1 - min 1 (d0 * 12)" "1 - min 1 (d0 * 12) < 1"
    using pos(1) by (simp_all add: min_def)
  have qe: "0 \<le> 1 - min 1 (d0 * 5.5)" "1 - min 1 (d0 * 5.5) < 1"
    using pos(1) by (simp_all add: min_def)
  have d0: "0 \<le> d0" using pos(1) by simp
  obtain N1 where N1: "\<forall>xs. N1 \<le> length xs \<and> (\<forall>d \<in> set xs. d0 \<le> d) \<longrightarrow> \<bar>fold ?lf xs ?lc - ?lt\<bar> < eps"
    using iter_converges [of d0 ?lf ?lt "1 - min 1 (d0 * 12)" eps ?lc]
      lip_lerp_contract [OF d0] ql pos(2) by blast
  obtain N2 where N2: "\<forall>xs. N2 \<le> length xs \<and> (\<forall>d \<in> set xs. d0 \<le> d) \<longrightarrow> \<bar>fold ?ef xs c - ?et\<bar> < eps"
    using iter_converges [of d0 ?ef ?et "1 - min 1 (d0 * 5.5)" eps c]
      expr_lerp_contract [OF d0] qe pos(2) by blast
  have conv: "\<forall>xs. max N1 N2 \<le> length xs \<and> (\<forall>d \<in> set xs. d0 \<le> d) \<longrightarrow>
      \<bar>fold ?lf xs ?lc - ?lt\<bar> < eps \<and> \<bar>fold ?ef xs c - ?et\<bar> < eps"
    using N1 N2 by simp
  show ?thesis
    unfolding lipv exprv using lb eb part1 part2 conv by blast
qed

lemma demo_face_values:
  "get0 (lipTarget demo_face) ''aa'' = 0.6" "get0 (lipCurrent demo_face) ''aa'' = 0"
  "exprCurrent demo_face ''neutral'' = Some 0" "get0 (exprTarget demo_face) ''neutral'' = 1"
  by (simp_all add: demo_face_def init_def world0_def zero_all_eq get0_def LIP_SHAPES_def allNames_def)

text \<open>Two frames of 16 ms and 50 ms on the sample face; frames of at least 16 ms.\<close>

theorem blend_layers_converge_witness:
  "''aa'' \<in> set LIP_SHAPES \<and>
   0 \<le> get0 (lipTarget demo_face) ''aa'' \<and> get0 (lipTarget demo_face) ''aa'' \<le> 1 \<and>
   0 \<le> get0 (lipCurrent demo_face) ''aa'' \<and> get0 (lipCurrent demo_face) ''aa'' \<le> 1 \<and>
   exprCurrent demo_face ''neutral'' = Some 0 \<and>
   0 \<le> get0 (exprTarget demo_face) ''neutral'' \<and> get0 (exprTarget demo_face) ''neutral'' \<le> 1 \<and>
   0 \<le> get0 (lipCurrent (fold lipLerp [0.016, 0.05] demo_face)) ''aa'' \<and>
   get0 (lipCurrent (fold lipLerp [0.016, 0.05] demo_face)) ''aa'' \<le> 1 \<and>
   0 \<le> get0 (exprCurrent (fold exprCrossFade [0.016, 0.05] demo_face)) ''neutral'' \<and>
   get0 (exprCurrent (fold exprCrossFade [0.016, 0.05] demo_face)) ''neutral'' \<le> 1 \<and>
   (\<exists>N. \<forall>ds'. N \<le> length ds' \<and> (\<forall>d \<in> set ds'. 0.016 \<le> d) \<longrightarrow>
      \<bar>get0 (lipCurrent (fold lipLerp ds' demo_face)) ''aa'' - get0 (lipTarget demo_face) ''aa''\<bar> < 0.01 \<and>
      \<bar>get0 (exprCurrent (fold exprCrossFade ds' demo_face)) ''neutral'' -
         get0 (exprTarget demo_face) ''neutral''\<bar> < 0.01)"
proof -
  have n: "''aa'' \<in> set LIP_SHAPES" by (simp add: LIP_SHAPES_def)
  have lt: "0 \<le> get0 (lipTarget demo_face) ''aa''" "get0 (lipTarget demo_face) ''aa'' \<le> 1"
    by (simp_all add: demo_face_values)
  have lc: "0 \<le> get0 (lipCurrent demo_face) ''aa''" "get0 (lipCurrent demo_face) ''aa'' \<le> 1"
    by (simp_all add: demo_face_values)
  have ec: "exprCurrent demo_face ''neutral'' = Some 0" "(0::real) \<le> 0" "(0::real) \<le> 1"
    by (simp_all add: demo_face_values)
  have et: "0 \<le> get0 (exprTarget demo_face) ''neutral''" "get0 (exprTarget demo_face) ''neutral'' \<le> 1"
    by (simp_all add: demo_face_values)
  have ds: "\<forall>d \<in> set [0.016, 0.05 :: real]. 0 \<le> d" by simp
  have pos: "(0::real) < 0.016" "(0::real) < 0.01" by simp_all
  note th = blend_layers_converge [OF n lt lc ec et ds pos]
  show ?thesis using th n lt lc ec(1) et by blast
qed

lemma lip_lerp_zero: "lip_lerp 0 t c = c"
  by (simp add: lip_lerp_def)

text \<open>
  The claim as stated admits ticks with delta 0, and under such ticks the lip weight of
  the sample face stays at 0, at distance 0.6 from its target, however many there are.
\<close>

theorem zero_delta_ticks_counterexample:
  "\<not> (\<exists>k. \<bar>get0 (lipCurrent (fold lipLerp (replicate k 0) demo_face)) ''aa'' -
             get0 (lipTarget demo_face) ''aa''\<bar> < 1 / 2)"
proof -
  have n: "''aa'' \<in> set LIP_SHAPES" by (simp add: LIP_SHAPES_def)
  have stay: "fold (\<lambda>d c. lip_lerp d t c) (replicate k 0) c = c" for k t c
    by (induction k) (simp_all add: lip_lerp_zero)
  have "get0 (lipCurrent (fold lipLerp (replicate k 0) demo_face)) ''aa'' =
        fold (\<lambda>d c. lip_lerp d (get0 (lipTarget demo_face) ''aa'') c) (replicate k 0)
          (get0 (lipCurrent demo_face) ''aa'')" for k
    using lipLerp_fold [OF n, of "replicate k 0" demo_face] by blast
  then have "get0 (lipCurrent (fold lipLerp (replicate k 0) demo_face)) ''aa'' = 0" for k
    unfolding stay by (simp only: demo_face_values)
  then show ?thesis by (simp add: demo_face_values)
qed

section \<open>Properties of binary64 rounding\<close>

lemma binade_bounds:
  assumes "x \<noteq> 0"
  shows "2 powi binade x \<le> \<bar>x\<bar>" and "\<bar>x\<bar> < 2 powi (binade x + 1)"
proof -
  have "2 powi binade x \<le> \<bar>x\<bar> \<and> \<bar>x\<bar> < 2 powi (binade x + 1)"
  proof (cases "1 \<le> \<bar>x\<bar>")
    case True
    let ?n = "\<lfloor>\<bar>x\<bar>\<rfloor>"
    have n: "0 < ?n" using True by simp
    have b1: "1 \<le> bitlen ?n" using n by (simp add: bitlen_alt_def)
    have k: "binade x = bitlen ?n - 1" using True by (simp add: binade_def)
    from bitlen_bounds [OF n] have lo: "(2 :: int) ^ nat (bitlen ?n - 1) \<le> ?n"
      and hi: "?n < 2 ^ nat (bitlen ?n)" by simp_all
    have "(2 :: real) ^ nat (bitlen ?n - 1) \<le> of_int ?n"
      using lo by (metis of_int_le_iff of_int_numeral of_int_power)
    also have "\<dots> \<le> \<bar>x\<bar>" by simp
    finally have 1: "2 powi binade x \<le> \<bar>x\<bar>"
      using b1 by (simp add: k power_int_nonneg_exp)
    have "?n + 1 \<le> 2 ^ nat (bitlen ?n)" using hi by simp
    then have "of_int (?n + 1) \<le> (2 :: real) ^ nat (bitlen ?n)"
      by (metis of_int_le_iff of_int_numeral of_int_power)
    moreover have "\<bar>x\<bar> < of_int (?n + 1)" by linarith
    ultimately have "\<bar>x\<bar> < 2 ^ nat (bitlen ?n)" by linarith
    then have 2: "\<bar>x\<bar> < 2 powi (binade x + 1)"
      using b1 by (simp add: k power_int_nonneg_exp)
    show ?thesis using 1 2 by simp
  next
    case False
    let ?y = "1 / \<bar>x\<bar>"
    let ?m = "\<lceil>?y\<rceil>"
    have xp: "0 < \<bar>x\<bar>" "\<bar>x\<bar> < 1" using assms False by simp_all
    have y1: "1 < ?y" using xp by simp
    have m: "0 < ?m - 1" using y1 by linarith
    let ?j = "bitlen (?m - 1)"
    have j1: "1 \<le> ?j" using m by (simp add: bitlen_alt_def)
    have k: "binade x = - ?j" using False by (simp add: binade_def)
    from bitlen_bounds [OF m] have lo: "(2 :: int) ^ nat (?j - 1) \<le> ?m - 1"
      and hi: "?m - 1 < 2 ^ nat ?j" by simp_all
    have "?m \<le> 2 ^ nat ?j" using hi by simp
    then have "of_int ?m \<le> (2 :: real) ^ nat ?j"
      by (metis of_int_le_iff of_int_numeral of_int_power)
    moreover have "?y \<le> of_int ?m" by simp
    ultimately have yle: "?y \<le> 2 ^ nat ?j" by linarith
    have "(2 :: real) ^ nat (?j - 1) \<le> of_int (?m - 1)"
      using lo by (metis of_int_le_iff of_int_numeral of_int_power)
    moreover have "of_int (?m - 1) < ?y" by linarith
    ultimately have ygt: "2 ^ nat (?j - 1) < ?y" by linarith
    have p: "(0 :: real) < 2 ^ nat ?j" "(0 :: real) < 2 ^ nat (?j - 1)" by simp_all
    have 1: "2 powi binade x \<le> \<bar>x\<bar>"
    proof -
      have "1 / 2 ^ nat ?j \<le> \<bar>x\<bar>" using yle xp p
        by (simp add: field_simps)
      moreover have "2 powi (- ?j) = 1 / (2 :: real) ^ nat ?j"
        using j1 by (simp add: power_int_minus_divide power_int_nonneg_exp)
      ultimately show ?thesis by (simp add: k)
    qed
    have 2: "\<bar>x\<bar> < 2 powi (binade x + 1)"
    proof -
      have "\<bar>x\<bar> < 1 / 2 ^ nat (?j - 1)" using ygt xp p
        by (simp add: field_simps)
      moreover have "2 powi (- ?j + 1) = 1 / (2 :: real) ^ nat (?j - 1)"
      proof -
        have "- ?j + 1 = - (?j - 1)" by simp
        then show ?thesis using j1
          by (simp only: power_int_minus_divide) (simp add: power_int_nonneg_exp)
      qed
      ultimately show ?thesis by (simp add: k)
    qed
    show ?thesis using 1 2 by simp
  qed
  then show "2 powi binade x \<le> \<bar>x\<bar>" and "\<bar>x\<bar> < 2 powi (binade x + 1)" by simp_all
qed

lemma two_powi_mono: "a \<le> b \<Longrightarrow> (2 :: real) powi a \<le> 2 powi b"
  by (rule power_int_increasing) simp_all

lemma two_powi_pos [simp]: "(0 :: real) < 2 powi a"
  by (simp add: zero_less_power_int)

lemma binade_eq:
  assumes "2 powi k \<le> \<bar>x\<bar>" "\<bar>x\<bar> < 2 powi (k + 1)"
  shows "binade x = k"
proof -
  have "0 < \<bar>x\<bar>" using assms(1) two_powi_pos [of k] by linarith
  then have x: "x \<noteq> 0" by simp
  note b = binade_bounds [OF x]
  have "\<not> binade x < k"
  proof
    assume "binade x < k"
    then have "(2 :: real) powi (binade x + 1) \<le> 2 powi k" by (intro two_powi_mono) simp
    then show False using b(2) assms(1) by linarith
  qed
  moreover have "\<not> k < binade x"
  proof
    assume "k < binade x"
    then have "(2 :: real) powi (k + 1) \<le> 2 powi binade x" by (intro two_powi_mono) simp
    then show False using b(1) assms(2) by linarith
  qed
  ultimately show ?thesis by simp
qed

lemma binade_le: "x \<noteq> 0 \<Longrightarrow> \<bar>x\<bar> < 2 powi k \<Longrightarrow> binade x < k"
proof (rule ccontr)
  assume x: "x \<noteq> 0" and lt: "\<bar>x\<bar> < 2 powi k" and "\<not> binade x < k"
  then have "(2 :: real) powi k \<le> 2 powi binade x" by (intro two_powi_mono) simp
  then show False using binade_bounds(1) [OF x] lt by linarith
qed

lemma binade_ge: "2 powi k \<le> \<bar>x\<bar> \<Longrightarrow> k \<le> binade x"
proof (rule ccontr)
  assume le: "2 powi k \<le> \<bar>x\<bar>" and "\<not> k \<le> binade x"
  then have "(2 :: real) powi (binade x + 1) \<le> 2 powi k" by (intro two_powi_mono) simp
  moreover have "0 < \<bar>x\<bar>" using le two_powi_pos [of k] by linarith
  then have "x \<noteq> 0" by simp
  ultimately show False using binade_bounds(2) [of x] le by linarith
qed

lemma rne_cases:
  "rne y = \<lfloor>y\<rfloor> \<or> rne y = \<lfloor>y\<rfloor> + 1"
  by (simp add: rne_def Let_def)

lemma rne_int [simp]: "rne (of_int n) = n"
  by (simp add: rne_def Let_def)

lemma rne_half: "\<bar>of_int (rne y) - y\<bar> \<le> 1 / 2"
  unfolding rne_def Let_def by (auto; linarith)

lemma rne_nearest: "\<bar>of_int (rne y) - y\<bar> \<le> \<bar>of_int n - y\<bar>"
proof (cases "n \<le> \<lfloor>y\<rfloor>")
  case True
  then have "of_int n \<le> (of_int \<lfloor>y\<rfloor> :: real)" by simp
  moreover have "of_int \<lfloor>y\<rfloor> \<le> y" by simp
  ultimately have "y - of_int \<lfloor>y\<rfloor> \<le> \<bar>of_int n - y\<bar>" by linarith
  moreover have "\<bar>of_int (rne y) - y\<bar> \<le> y - of_int \<lfloor>y\<rfloor>"
    unfolding rne_def Let_def by (auto; linarith)
  ultimately show ?thesis by linarith
next
  case False
  then have "\<lfloor>y\<rfloor> + 1 \<le> n" by simp
  then have "of_int (\<lfloor>y\<rfloor> + 1) \<le> (of_int n :: real)" by (simp only: of_int_le_iff)
  moreover have "y < of_int (\<lfloor>y\<rfloor> + 1)" by linarith
  ultimately have "of_int \<lfloor>y\<rfloor> + 1 - y \<le> \<bar>of_int n - y\<bar>" by simp
  moreover have "\<bar>of_int (rne y) - y\<bar> \<le> of_int \<lfloor>y\<rfloor> + 1 - y"
    unfolding rne_def Let_def by (auto; linarith)
  ultimately show ?thesis by linarith
qed

lemma rne_le: "y \<le> of_int N \<Longrightarrow> rne y \<le> N"
proof -
  assume a: "y \<le> of_int N"
  show ?thesis
  proof (cases "y = of_int N")
    case True
    then show ?thesis by simp
  next
    case False
    then have "y < of_int N" using a by simp
    then have "\<lfloor>y\<rfloor> < N" by (simp add: floor_less_iff)
    then show ?thesis using rne_cases [of y] by auto
  qed
qed

lemma rne_ge: "of_int N \<le> y \<Longrightarrow> N \<le> rne y"
proof -
  assume "of_int N \<le> y"
  then have "N \<le> \<lfloor>y\<rfloor>" by (simp add: le_floor_iff)
  then show ?thesis using rne_cases [of y] by auto
qed


lemma fl_zero [simp]: "fl 0 = 0"
  by (simp add: fl_def)

lemma ulp_exp_ge: "- 1074 \<le> ulp_exp x"
  by (simp add: ulp_exp_def)

lemma powi_split: "a \<le> b \<Longrightarrow> (2 :: real) powi b = 2 ^ nat (b - a) * 2 powi a"
proof -
  assume "a \<le> b"
  then have "(2 :: real) powi b = 2 powi ((b - a) + a)" by simp
  also have "\<dots> = 2 powi (b - a) * 2 powi a" by (rule power_int_add) simp
  also have "2 powi (b - a) = (2 :: real) ^ nat (b - a)"
    using \<open>a \<le> b\<close> by (simp add: power_int_nonneg_exp)
  finally show ?thesis .
qed

lemma grid_coarser:
  assumes "a \<le> b"
  shows "of_int n * (2 :: real) powi b = of_int (n * 2 ^ nat (b - a)) * 2 powi a"
  by (simp add: powi_split [OF assms])

lemma abs_scale:
  assumes "0 < (p :: real)"
  shows "\<bar>a - x / p\<bar> * p = \<bar>a * p - x\<bar>"
proof -
  have "a * p - x = (a - x / p) * p" using assms by (simp add: field_simps)
  then have "\<bar>a * p - x\<bar> = \<bar>a - x / p\<bar> * \<bar>p\<bar>" by (simp only: abs_mult)
  then show ?thesis using assms by simp
qed

lemma fl_grid_nearest:
  assumes "x \<noteq> 0"
  shows "\<bar>fl x - x\<bar> \<le> \<bar>of_int n * 2 powi ulp_exp x - x\<bar>"
proof -
  let ?p = "(2 :: real) powi ulp_exp x"
  have p: "0 < ?p" by simp
  have "\<bar>of_int (rne (x / ?p)) - x / ?p\<bar> \<le> \<bar>of_int n - x / ?p\<bar>" by (rule rne_nearest)
  then have "\<bar>of_int (rne (x / ?p)) - x / ?p\<bar> * ?p \<le> \<bar>of_int n - x / ?p\<bar> * ?p"
    using p by (simp only: mult_le_cancel_right_pos)
  moreover have "\<bar>of_int (rne (x / ?p)) - x / ?p\<bar> * ?p = \<bar>of_int (rne (x / ?p)) * ?p - x\<bar>"
    by (rule abs_scale [OF p])
  moreover have "\<bar>of_int n - x / ?p\<bar> * ?p = \<bar>of_int n * ?p - x\<bar>"
    by (rule abs_scale [OF p])
  ultimately show ?thesis using assms by (simp add: fl_def)
qed

lemma fl_err: "\<bar>fl x - x\<bar> \<le> 2 powi (ulp_exp x - 1)"
proof (cases "x = 0")
  case True
  then show ?thesis using two_powi_pos [of "ulp_exp 0 - 1"] by simp
next
  case False
  let ?p = "(2 :: real) powi ulp_exp x"
  have p: "0 < ?p" by simp
  have "\<bar>of_int (rne (x / ?p)) - x / ?p\<bar> \<le> 1 / 2" by (rule rne_half)
  then have "\<bar>of_int (rne (x / ?p)) - x / ?p\<bar> * ?p \<le> 1 / 2 * ?p"
    using p by (simp only: mult_le_cancel_right_pos)
  moreover have "\<bar>of_int (rne (x / ?p)) - x / ?p\<bar> * ?p = \<bar>of_int (rne (x / ?p)) * ?p - x\<bar>"
    by (rule abs_scale [OF p])
  moreover have "2 powi (ulp_exp x - 1) = 1 / 2 * ?p"
    by (simp add: power_int_diff)
  ultimately show ?thesis using False by (simp add: fl_def)
qed

lemma binade_mono: "x \<noteq> 0 \<Longrightarrow> \<bar>x\<bar> \<le> \<bar>y\<bar> \<Longrightarrow> binade x \<le> binade y"
proof -
  assume x: "x \<noteq> 0" and le: "\<bar>x\<bar> \<le> \<bar>y\<bar>"
  have "2 powi binade x \<le> \<bar>y\<bar>" using binade_bounds(1) [OF x] le by linarith
  then show ?thesis by (rule binade_ge)
qed

lemma ulp_exp_mono: "x \<noteq> 0 \<Longrightarrow> \<bar>x\<bar> \<le> \<bar>y\<bar> \<Longrightarrow> ulp_exp x \<le> ulp_exp y"
  using binade_mono [of x y] by (simp add: ulp_exp_def)

lemma fl_fix_lt:
  assumes "- 1074 \<le> e" "\<bar>n\<bar> < 2 ^ 53"
  shows "fl (of_int n * 2 powi e) = of_int n * 2 powi e"
proof (cases "n = 0")
  case True
  then show ?thesis by simp
next
  case False
  let ?z = "of_int n * (2 :: real) powi e"
  have z0: "?z \<noteq> 0" using False by simp
  have "\<bar>?z\<bar> = of_int \<bar>n\<bar> * 2 powi e" by (simp add: abs_mult)
  also have "\<dots> < 2 ^ 53 * 2 powi e"
  proof -
    have "(of_int \<bar>n\<bar> :: real) < of_int (2 ^ 53)" using assms(2) by (simp only: of_int_less_iff)
    then show ?thesis by simp
  qed
  also have "\<dots> = 2 powi (e + 53)"
    by (simp add: power_int_add)
  finally have "binade ?z < e + 53" using binade_le [OF z0] by simp
  then have le: "ulp_exp ?z \<le> e" using assms(1) by (simp add: ulp_exp_def)
  have eq: "?z = of_int (n * 2 ^ nat (e - ulp_exp ?z)) * 2 powi ulp_exp ?z"
    by (rule grid_coarser [OF le])
  have "?z / 2 powi ulp_exp ?z = of_int (n * 2 ^ nat (e - ulp_exp ?z))"
    by (subst eq) simp
  then have "rne (?z / 2 powi ulp_exp ?z) = n * 2 ^ nat (e - ulp_exp ?z)"
    by (simp only: rne_int)
  then have "fl ?z = of_int (n * 2 ^ nat (e - ulp_exp ?z)) * 2 powi ulp_exp ?z"
    using z0 by (simp only: fl_def if_False)
  then show ?thesis by (rule trans [OF _ eq [symmetric]])
qed

lemma fl_fix:
  assumes "- 1074 \<le> e" "\<bar>n\<bar> \<le> 2 ^ 53"
  shows "fl (of_int n * 2 powi e) = of_int n * 2 powi e"
proof (cases "\<bar>n\<bar> < 2 ^ 53")
  case True
  then show ?thesis using fl_fix_lt [OF assms(1)] by simp
next
  case False
  then have n: "n = 2 ^ 53 \<or> n = - (2 ^ 53)" using assms(2) by auto
  have e1: "- 1074 \<le> e + 1" using assms(1) by simp
  have p: "(2 :: real) powi (e + 1) = 2 * 2 powi e" by (simp add: power_int_add)
  from n show ?thesis
  proof
    assume "n = 2 ^ 53"
    then have "of_int n * (2 :: real) powi e = of_int (2 ^ 52) * 2 powi (e + 1)"
      by (simp add: p)
    then show ?thesis using fl_fix_lt [OF e1, of "2 ^ 52"] by simp
  next
    assume "n = - (2 ^ 53)"
    then have "of_int n * (2 :: real) powi e = of_int (- (2 ^ 52)) * 2 powi (e + 1)"
      by (simp add: p)
    then show ?thesis using fl_fix_lt [OF e1, of "- (2 ^ 52)"] by simp
  qed
qed

lemma fl_mantissa:
  assumes "x \<noteq> 0"
  shows "\<bar>rne (x / 2 powi ulp_exp x)\<bar> \<le> 2 ^ 53"
proof -
  let ?e = "ulp_exp x"
  have "binade x + 1 \<le> ?e + 53" by (simp add: ulp_exp_def)
  then have "(2 :: real) powi (binade x + 1) \<le> 2 powi (?e + 53)" by (rule two_powi_mono)
  then have "\<bar>x\<bar> < 2 powi (?e + 53)" using binade_bounds(2) [OF assms] by linarith
  also have "\<dots> = 2 ^ 53 * 2 powi ?e" by (simp add: power_int_add)
  finally have "\<bar>x\<bar> / 2 powi ?e < 2 ^ 53" by (simp add: field_simps)
  then have a: "\<bar>x / 2 powi ?e\<bar> < 2 ^ 53" by simp
  have "x / 2 powi ?e \<le> 2 ^ 53" "- (2 ^ 53) \<le> x / 2 powi ?e"
    using a by linarith+
  then have b: "x / 2 powi ?e \<le> of_int (2 ^ 53)" "of_int (- (2 ^ 53)) \<le> x / 2 powi ?e"
    by simp_all
  have "rne (x / 2 powi ?e) \<le> 2 ^ 53" by (rule rne_le [OF b(1)])
  moreover have "- (2 ^ 53) \<le> rne (x / 2 powi ?e)" by (rule rne_ge [OF b(2)])
  ultimately show ?thesis by simp
qed

lemma fl_idem [simp]: "fl (fl x) = fl x"
proof (cases "x = 0")
  case True
  then show ?thesis by simp
next
  case False
  have "fl x = of_int (rne (x / 2 powi ulp_exp x)) * 2 powi ulp_exp x"
    using False by (simp add: fl_def)
  then show ?thesis using fl_fix [OF ulp_exp_ge fl_mantissa [OF False]] by simp
qed


lemma fl_rep:
  assumes "fl d = d" "d \<noteq> 0"
  shows "d = of_int (rne (d / 2 powi ulp_exp d)) * 2 powi ulp_exp d"
  using assms by (simp add: fl_def)

lemma fl_nearest:
  assumes "fl d = d"
  shows "\<bar>fl x - x\<bar> \<le> \<bar>d - x\<bar>"
proof (cases "x = 0")
  case True
  then show ?thesis by simp
next
  case x: False
  show ?thesis
  proof (cases "d = 0")
    case True
    then show ?thesis using fl_grid_nearest [OF x, of 0] by simp
  next
    case d: False
    let ?e = "ulp_exp x"
    let ?ed = "ulp_exp d"
    note rep = fl_rep [OF assms d]
    show ?thesis
    proof (cases "?e \<le> ?ed")
      case True
      have "d = of_int (rne (d / 2 powi ?ed) * 2 ^ nat (?ed - ?e)) * 2 powi ?e"
        using rep grid_coarser [OF True, of "rne (d / 2 powi ?ed)"] by simp
      then show ?thesis
        using fl_grid_nearest [OF x, of "rne (d / 2 powi ?ed) * 2 ^ nat (?ed - ?e)"] by simp
    next
      case False
      then have lt: "?ed < ?e" by simp
      have e: "?e = binade x - 52"
        using lt ulp_exp_ge [of d] by (auto simp: ulp_exp_def max_def split: if_splits)
      have "binade d - 52 \<le> ?ed" by (simp add: ulp_exp_def)
      then have "binade d + 1 \<le> binade x" using lt e by simp
      then have "(2 :: real) powi (binade d + 1) \<le> 2 powi binade x" by (rule two_powi_mono)
      then have dlt: "\<bar>d\<bar> < 2 powi binade x" using binade_bounds(2) [OF d] by linarith
      have xge: "2 powi binade x \<le> \<bar>x\<bar>" by (rule binade_bounds(1) [OF x])
      have g: "(2 :: real) powi binade x = of_int (2 ^ 52) * 2 powi ?e"
        using grid_coarser [of ?e "binade x" 1] e by simp
      show ?thesis
      proof (cases "0 < x")
        case True
        have "\<bar>fl x - x\<bar> \<le> \<bar>of_int (2 ^ 52) * 2 powi ?e - x\<bar>" by (rule fl_grid_nearest [OF x])
        then show ?thesis using g dlt xge True by linarith
      next
        case False
        have "\<bar>fl x - x\<bar> \<le> \<bar>of_int (- (2 ^ 52)) * 2 powi ?e - x\<bar>" by (rule fl_grid_nearest [OF x])
        moreover have "of_int (- (2 ^ 52)) * 2 powi ?e = - ((2 :: real) powi binade x)"
          using g by simp
        ultimately show ?thesis using dlt xge False x by linarith
      qed
    qed
  qed
qed

lemma fl_mono:
  assumes "x \<le> y"
  shows "fl x \<le> fl y"
proof (rule ccontr)
  assume "\<not> fl x \<le> fl y"
  then have lt: "fl y < fl x" by simp
  have 1: "\<bar>fl x - x\<bar> \<le> \<bar>fl y - x\<bar>" by (rule fl_nearest) simp
  have 2: "\<bar>fl y - y\<bar> \<le> \<bar>fl x - y\<bar>" by (rule fl_nearest) simp
  have a: "fl y < x" using 1 lt by linarith
  have b: "y < fl x" using 2 lt by linarith
  have "x = y" using 1 2 a b assms by linarith
  then show False using lt by simp
qed

lemma fl_nonneg: "0 \<le> x \<Longrightarrow> 0 \<le> fl x"
  using fl_mono [of 0 x] by simp

lemma fl_le_fix: "x \<le> d \<Longrightarrow> fl d = d \<Longrightarrow> fl x \<le> d"
  using fl_mono [of x d] by simp

lemma fl_ge_fix: "d \<le> x \<Longrightarrow> fl d = d \<Longrightarrow> d \<le> fl x"
  using fl_mono [of d x] by simp

lemma fl_int:
  assumes "\<bar>n\<bar> \<le> 2 ^ 53"
  shows "fl (of_int n) = of_int n"
  using fl_fix [of 0 n] assms by simp

lemma fl_consts [simp]: "fl 1 = 1" "fl 2 = 2"
  using fl_int [of 1] fl_int [of 2] by simp_all

lemma fl_sub_small:
  assumes "fl T = T" "1 \<le> T" "0 \<le> d" "d < 1 / 2 ^ 54"
  shows "fl (T - d) = T"
proof (cases "d = 0")
  case True
  then show ?thesis using assms(1) by simp
next
  case False
  then have dp: "0 < d" using assms(3) by simp
  let ?x = "T - d"
  let ?e = "ulp_exp ?x"
  have small: "d < 1 / 2" using assms(4) by (simp add: field_simps, linarith?)
  have x0: "?x \<noteq> 0" using assms(2) small by linarith
  have T0: "T \<noteq> 0" using assms(2) by linarith
  have xh: "2 powi (- 1) \<le> \<bar>?x\<bar>" using assms(2) small by (simp add: power_int_minus_divide, linarith?)
  have "- 1 \<le> binade ?x" by (rule binade_ge [OF xh])
  then have elo: "- 53 \<le> ?e" by (simp add: ulp_exp_def)
  have "\<bar>?x\<bar> \<le> \<bar>T\<bar>" using assms(2,3) small by linarith
  then have ele: "?e \<le> ulp_exp T" by (rule ulp_exp_mono [OF x0])
  define N where "N = rne (T / 2 powi ulp_exp T) * 2 ^ nat (ulp_exp T - ?e)"
  have TN: "T = of_int N * 2 powi ?e"
    unfolding N_def
    using fl_rep [OF assms(1) T0] grid_coarser [OF ele, of "rne (T / 2 powi ulp_exp T)"] by simp
  have p: "(0 :: real) < 2 powi ?e" by simp
  have "(2 :: real) powi (- 53) \<le> 2 powi ?e" by (rule two_powi_mono [OF elo])
  then have pl: "1 / 2 ^ 53 \<le> (2 :: real) powi ?e" by (simp add: power_int_minus_divide)
  define eps where "eps = d / 2 powi ?e"
  have "d / 2 powi ?e \<le> d / (1 / 2 ^ 53)"
    using pl dp by (intro divide_left_mono) simp_all
  also have "\<dots> < 1 / 2" using assms(4) by (simp add: field_simps)
  finally have eps: "eps < 1 / 2" by (simp add: eps_def)
  have eps0: "0 < eps" using dp p by (simp add: eps_def)
  have q: "?x / 2 powi ?e = of_int N - eps"
    unfolding eps_def using p by (subst TN) (simp add: field_simps)
  have c: "(of_int (N - 1) :: real) = of_int N - 1" by simp
  have fl: "\<lfloor>of_int N - eps\<rfloor> = N - 1"
  proof (rule floor_unique)
    show "of_int (N - 1) \<le> of_int N - eps" using eps c by linarith
    show "of_int N - eps < of_int (N - 1) + 1" using eps0 c by linarith
  qed
  have "rne (of_int N - eps) = N"
    unfolding rne_def Let_def fl using eps eps0 by simp
  then have "fl ?x = of_int N * 2 powi ?e"
    using x0 q by (simp add: fl_def)
  then show ?thesis using TN by simp
qed

lemma fl_eval:
  assumes "2 powi k \<le> \<bar>x\<bar>" "\<bar>x\<bar> < 2 powi (k + 1)" "- 1022 \<le> k"
  shows "fl x = of_int (rne (x / 2 powi (k - 52))) * 2 powi (k - 52)"
proof -
  have b: "binade x = k" by (rule binade_eq [OF assms(1,2)])
  have "0 < \<bar>x\<bar>" using assms(1) two_powi_pos [of k] by linarith
  then have "x \<noteq> 0" by simp
  then show ?thesis using assms(3) by (simp add: fl_def ulp_exp_def b)
qed

lemma fl_rel_err:
  assumes "x \<noteq> 0" "- 1022 \<le> binade x"
  shows "\<bar>fl x - x\<bar> \<le> \<bar>x\<bar> / 2 ^ 53"
proof -
  have e: "ulp_exp x - 1 = binade x - 53" using assms(2) by (simp add: ulp_exp_def)
  have "\<bar>fl x - x\<bar> \<le> 2 powi (binade x - 53)" using fl_err [of x] by (simp add: e)
  also have "\<dots> = 2 powi binade x / 2 ^ 53" by (simp add: power_int_diff)
  also have "\<dots> \<le> \<bar>x\<bar> / 2 ^ 53" using binade_bounds(1) [OF assms(1)] by (simp add: divide_right_mono)
  finally show ?thesis .
qed

lemma fl_abs_err:
  assumes "\<bar>x\<bar> < 2 powi k" "- 1021 \<le> k"
  shows "\<bar>fl x - x\<bar> \<le> 2 powi (k - 54)"
proof (cases "x = 0")
  case True
  then show ?thesis using two_powi_pos [of "k - 54"] by simp
next
  case False
  have "binade x < k" by (rule binade_le [OF False assms(1)])
  then have "ulp_exp x - 1 \<le> k - 54"
    using assms(2) by (auto simp: ulp_exp_def max_def split: if_splits)
  then have "(2 :: real) powi (ulp_exp x - 1) \<le> 2 powi (k - 54)" by (rule two_powi_mono)
  then show ?thesis using fl_err [of x] by linarith
qed

section \<open>Properties of the blink state machine\<close>

lemma fl_dyadic:
  "fl (3 / 4) = 3 / 4" "fl (7 / 4) = 7 / 4" "fl (1 / 16) = 1 / 16" "fl (1 / 8) = 1 / 8"
  "fl (3 / 16) = 3 / 16" "fl 3 = 3"
  using fl_fix [of "- 2" 3] fl_fix [of "- 2" 7] fl_fix [of "- 4" 1] fl_fix [of "- 3" 1]
    fl_fix [of "- 4" 3] fl_int [of 3]
  by (simp_all add: power_int_minus_divide)

lemma literal_err:
  assumes "\<bar>x\<bar> < 1 / 2 ^ 2"
  shows "x - 1 / 2 ^ 56 \<le> fl x" "fl x \<le> x + 1 / 2 ^ 56"
proof -
  have "\<bar>x\<bar> < 2 powi (- 2)" using assms by (simp add: power_int_minus_divide)
  then have "\<bar>fl x - x\<bar> \<le> 2 powi (- 2 - 54)" by (rule fl_abs_err) simp
  then have "\<bar>fl x - x\<bar> \<le> 1 / 2 ^ 56" by (simp add: power_int_minus_divide)
  then show "x - 1 / 2 ^ 56 \<le> fl x" "fl x \<le> x + 1 / 2 ^ 56"
    by (simp_all only: abs_diff_le_iff)
qed

lemma literal_bounds:
  "0.0799 \<le> fl 0.08" "fl 0.08 \<le> 0.0801" "0 \<le> fl 0.05" "fl 0.05 \<le> 0.0501"
  "0.19 \<le> fl 0.2" "fl 0.07 \<le> 0.0701" "fl 0.04 \<le> 0.0401"
proof -
  show "0.0799 \<le> fl 0.08" using literal_err(1) [of "0.08"] by (simp, linarith?)
  show "fl 0.08 \<le> 0.0801" using literal_err(2) [of "0.08"] by (simp, linarith?)
  show "0 \<le> fl 0.05" by (rule fl_nonneg) simp
  show "fl 0.05 \<le> 0.0501" using literal_err(2) [of "0.05"] by (simp, linarith?)
  show "0.19 \<le> fl 0.2" using literal_err(1) [of "0.2"] by (simp, linarith?)
  show "fl 0.07 \<le> 0.0701" using literal_err(2) [of "0.07"] by (simp, linarith?)
  show "fl 0.04 \<le> 0.0401" using literal_err(2) [of "0.04"] by (simp, linarith?)
qed

text \<open>The progress one frame adds: not negative and at most 3/4.\<close>

lemma quotient_bounds:
  assumes "0 \<le> d" "d \<le> fl 0.05"
  shows "0 \<le> fl (d / fl 0.08)" "fl (d / fl 0.08) \<le> 3 / 4"
proof -
  define D where "D = fl 0.08"
  have D: "0.0799 \<le> D" "D \<le> 0.0801" using literal_bounds(1,2) by (simp_all add: D_def)
  have dc: "d \<le> 0.0501" using assms(2) literal_bounds(4) by linarith
  have "0 \<le> d / D" using assms(1) D by simp
  then show "0 \<le> fl (d / fl 0.08)" unfolding D_def by (rule fl_nonneg)
  have "d / D \<le> 3 / 4" using D dc by (simp add: field_simps)
  then show "fl (d / fl 0.08) \<le> 3 / 4" unfolding D_def by (rule fl_le_fix) (rule fl_dyadic(1))
qed

text \<open>
  One frame of a blink in progress, on the numbers alone: \<open>T\<close> the timer, \<open>P\<close> the
  progress. The progress is not set back, and the timer loses at most a quarter of what
  the progress gains.
\<close>

lemma frame_arith:
  assumes "fl T = T" "1 \<le> T" "fl P = P" "0 \<le> P" "P < 2" "0 \<le> d" "d \<le> fl 0.05"
  shows "P \<le> fl (P + fl (d / fl 0.08))"
    and "T - 2 * d \<le> fl (T - d)"
    and "T + P / 4 \<le> fl (T - d) + fl (P + fl (d / fl 0.08)) / 4"
proof -
  define D where "D = fl 0.08"
  define q where "q = fl (d / D)"
  define P1 where "P1 = fl (P + q)"
  define T1 where "T1 = fl (T - d)"
  have D: "0.0799 \<le> D" "D \<le> 0.0801" using literal_bounds(1,2) by (simp_all add: D_def)
  have q: "0 \<le> q" "q \<le> 3 / 4" using quotient_bounds [OF assms(6,7)] by (simp_all add: q_def D_def)
  have a: "P \<le> P1" unfolding P1_def using q(1) assms(3) by (intro fl_ge_fix) simp_all
  have "\<bar>fl (T - d) - (T - d)\<bar> \<le> \<bar>T - (T - d)\<bar>" by (rule fl_nearest [OF assms(1)])
  then have b: "T - 2 * d \<le> T1" using assms(6) by (simp add: T1_def)
  have c: "T + P / 4 \<le> T1 + P1 / 4"
  proof (cases "d < 1 / 2 ^ 54")
    case True
    have "T1 = T" unfolding T1_def by (rule fl_sub_small [OF assms(1,2,6) True])
    then show ?thesis using a by simp
  next
    case False
    then have dl: "1 / 2 ^ 54 \<le> d" by simp
    have "d * (124 / 10 * D) \<le> d * 1"
      using D(2) assms(6) by (intro mult_left_mono) simp_all
    then have r: "124 / 10 * d \<le> d / D" using D(1) by (simp add: field_simps)
    have "2 powi (- 51) \<le> \<bar>d / D\<bar>"
    proof -
      have "(2 :: real) powi (- 51) \<le> 124 / 10 * (1 / 2 ^ 54)" by (simp add: power_int_minus_divide)
      also have "\<dots> \<le> 124 / 10 * d" using dl by simp
      also have "\<dots> \<le> d / D" by (rule r)
      finally have "2 powi (- 51) \<le> d / D" .
      then show ?thesis by linarith
    qed
    then have "- 51 \<le> binade (d / D)" by (rule binade_ge)
    then have bin: "- 1022 \<le> binade (d / D)" by simp
    have r0: "d / D \<noteq> 0" using r dl by auto
    have "\<bar>fl (d / D) - d / D\<bar> \<le> \<bar>d / D\<bar> / 2 ^ 53" by (rule fl_rel_err [OF r0 bin])
    moreover have "0 \<le> d / D" using assms(6) D(1) by simp
    then have "\<bar>d / D\<bar> = d / D" by (rule abs_of_nonneg)
    ultimately have "\<bar>fl (d / D) - d / D\<bar> \<le> (d / D) / 2 ^ 53" by simp
    then have qr: "d / D - (d / D) / 2 ^ 53 \<le> q"
      unfolding q_def by (simp only: abs_diff_le_iff)
    have "\<bar>P + q\<bar> < 2 powi 2" using assms(4,5) q by simp
    then have "\<bar>fl (P + q) - (P + q)\<bar> \<le> 2 powi (2 - 54)" by (rule fl_abs_err) simp
    then have "\<bar>fl (P + q) - (P + q)\<bar> \<le> 1 / 2 ^ 52" by (simp add: power_int_minus_divide)
    then have pe: "P + q - 1 / 2 ^ 52 \<le> P1"
      unfolding P1_def by (simp only: abs_diff_le_iff)
    define rr where "rr = d / D"
    have "rr - rr / 2 ^ 53 \<le> q" "124 / 10 * d \<le> rr" using qr r by (simp_all add: rr_def)
    then have "P + 8 * d \<le> P1" using pe dl by simp
    then show ?thesis using b by simp
  qed
  show "P \<le> fl (P + fl (d / fl 0.08))" using a by (simp add: P1_def q_def D_def)
  show "T - 2 * d \<le> fl (T - d)" using b by (simp add: T1_def)
  show "T + P / 4 \<le> fl (T - d) + fl (P + fl (d / fl 0.08)) / 4"
    using c by (simp add: T1_def P1_def q_def D_def)
qed

lemma blink_of_cong:
  "blink_of s = blink_of u \<Longrightarrow> blink_of (handleExpressions d r s) = blink_of (handleExpressions d r u)"
  by (simp add: blink_of_def handleExpressions_def Let_def)

lemma blink_inv_cong: "blink_of s = blink_of u \<Longrightarrow> blink_inv s = blink_inv u"
  by (simp add: blink_of_def blink_inv_def)

lemma blink_follows_cong:
  "blink_of s = blink_of u \<Longrightarrow> blink_of s' = blink_of u' \<Longrightarrow> blink_follows s s' = blink_follows u u'"
  by (auto simp: blink_of_def blink_follows_def split: blink_phase.splits)

lemma blink_follows_refl: "blink_of s' = blink_of s \<Longrightarrow> blink_follows s s'"
  by (cases "blinkState s") (auto simp: blink_of_def blink_follows_def)

text \<open>A call during a blink, while the timer stays positive; and the call that starts one.\<close>

lemma tick_in_blink:
  assumes "vrm s = Some True" "blinkState s \<noteq> Idle" "blinkDur s = fl 0.08"
    and "0 < fl (blinkTimer s - d)"
  shows "handleExpressions d r s =
     (if blinkState s = Closing then
        (if 1 \<le> fl (blinkProg s + fl (d / fl 0.08))
         then s\<lparr>blinkTimer := fl (blinkTimer s - d), blinkProg := 1, blinkState := Opening\<rparr>
         else s\<lparr>blinkTimer := fl (blinkTimer s - d),
                blinkProg := fl (blinkProg s + fl (d / fl 0.08))\<rparr>)
      else
        (if 2 \<le> fl (blinkProg s + fl (d / fl 0.08))
         then s\<lparr>blinkTimer := fl (blinkTimer s - d), blinkProg := 0, blinkState := Idle\<rparr>
         else s\<lparr>blinkTimer := fl (blinkTimer s - d),
                blinkProg := fl (blinkProg s + fl (d / fl 0.08))\<rparr>))"
  using assms by (simp add: handleExpressions_def Let_def)

lemma tick_start:
  assumes "vrm s = Some True" "blinkState s = Idle" "blinkTimer s \<le> d" "0 \<le> d" "d \<le> fl 0.05"
  shows "handleExpressions d r s =
     s\<lparr>blinkTimer := fl (2 + fl (r * 4)), blinkState := Closing, blinkDur := fl 0.08,
       blinkProg := fl (d / fl 0.08)\<rparr>"
proof -
  have "fl (blinkTimer s - d) \<le> 0" using fl_le_fix [of "blinkTimer s - d" 0] assms(3) by simp
  moreover have "\<not> 1 \<le> fl (d / fl 0.08)" using quotient_bounds(2) [OF assms(4,5)] by simp
  ultimately show ?thesis using assms(1,2) by (simp add: handleExpressions_def Let_def)
qed

lemma timer_positive:
  assumes "blink_inv s" "blinkState s \<noteq> Idle" "0 \<le> d" "d \<le> fl 0.05"
  shows "1 \<le> fl (blinkTimer s - d)"
proof -
  have T: "1.3 \<le> blinkTimer s"
    using assms(1,2) by (cases "blinkState s") (simp_all add: blink_inv_def)
  have "d \<le> 0.0501" using assms(4) literal_bounds(4) by linarith
  then have "1 \<le> blinkTimer s - d" using T by simp
  then show ?thesis by (rule fl_ge_fix) simp
qed

lemma handleExpressions_inv:
  assumes "blink_inv s" "0 \<le> d" "d \<le> fl 0.05" "0 \<le> r"
  shows "blink_inv (handleExpressions d r s) \<and> blink_follows s (handleExpressions d r s)"
proof (cases "vrm s = Some True")
  case False
  then show ?thesis using assms(1) by (simp add: handleExpressions_def blink_follows_refl)
next
  case True
  have dc: "d \<le> 0.0501" using assms(3) literal_bounds(4) by linarith
  show ?thesis
  proof (cases "blinkState s")
    case Idle
    show ?thesis
    proof (cases "fl (blinkTimer s - d) \<le> 0")
      case False
      then show ?thesis using True Idle
        by (simp add: handleExpressions_def blink_inv_def blink_follows_def Let_def)
    next
      case trig: True
      have q: "0 \<le> fl (d / fl 0.08)" "fl (d / fl 0.08) \<le> 3 / 4"
        using quotient_bounds [OF assms(2,3)] by simp_all
      have "0 \<le> fl (r * 4)" using assms(4) by (intro fl_nonneg) simp
      then have "2 \<le> 2 + fl (r * 4)" by simp
      then have T0: "2 \<le> fl (2 + fl (r * 4))" by (rule fl_ge_fix) simp
      have eq: "handleExpressions d r s =
          s\<lparr>blinkTimer := fl (2 + fl (r * 4)), blinkState := Closing, blinkDur := fl 0.08,
            blinkProg := fl (d / fl 0.08)\<rparr>"
        using True Idle trig q(2) by (simp add: handleExpressions_def Let_def)
      show ?thesis
        unfolding eq using Idle q T0 by (simp add: blink_inv_def blink_follows_def)
    qed
  next
    case Closing
    from assms(1) Closing have dur: "blinkDur s = fl 0.08"
      and dT: "fl (blinkTimer s) = blinkTimer s" and dP: "fl (blinkProg s) = blinkProg s"
      and p: "0 \<le> blinkProg s" "blinkProg s < 1"
      and tm: "2 \<le> blinkTimer s + blinkProg s / 4"
      by (simp_all add: blink_inv_def)
    have T1: "1 \<le> blinkTimer s" using tm p by simp
    have p2: "blinkProg s < 2" using p by simp
    note fa = frame_arith [OF dT T1 dP p(1) p2 assms(2,3)]
    have pos: "0 < fl (blinkTimer s - d)"
      using timer_positive [OF assms(1) _ assms(2,3)] Closing by simp
    have ne: "blinkState s \<noteq> Idle" using Closing by simp
    note eq = tick_in_blink [OF True ne dur pos, of r]
    show ?thesis
    proof (cases "1 \<le> fl (blinkProg s + fl (d / fl 0.08))")
      case up: True
      have "1.8 \<le> fl (blinkTimer s - d) + 1 / 4" using fa(2) tm p dc by simp
      then show ?thesis
        unfolding eq using up Closing dur by (simp add: blink_inv_def blink_follows_def)
    next
      case stay: False
      show ?thesis
        unfolding eq using stay Closing dur fa tm p
        by (simp add: blink_inv_def blink_follows_def)
    qed
  next
    case Opening
    from assms(1) Opening have dur: "blinkDur s = fl 0.08"
      and dT: "fl (blinkTimer s) = blinkTimer s" and dP: "fl (blinkProg s) = blinkProg s"
      and p: "1 \<le> blinkProg s" "blinkProg s < 2"
      and tm: "1.8 \<le> blinkTimer s + blinkProg s / 4"
      by (simp_all add: blink_inv_def)
    have T1: "1 \<le> blinkTimer s" using tm p by simp
    have p0: "0 \<le> blinkProg s" using p by simp
    note fa = frame_arith [OF dT T1 dP p0 p(2) assms(2,3)]
    have pos: "0 < fl (blinkTimer s - d)"
      using timer_positive [OF assms(1) _ assms(2,3)] Opening by simp
    have ne: "blinkState s \<noteq> Idle" using Opening by simp
    note eq = tick_in_blink [OF True ne dur pos, of r]
    show ?thesis
    proof (cases "2 \<le> fl (blinkProg s + fl (d / fl 0.08))")
      case fin: True
      show ?thesis
        unfolding eq using fin Opening by (simp add: blink_inv_def blink_follows_def)
    next
      case stay: False
      show ?thesis
        unfolding eq using stay Opening dur fa tm p
        by (simp add: blink_inv_def blink_follows_def)
    qed
  qed
qed

lemma onError_onEnded: "onError ok a s = onEnded ok a s"
  by (simp add: onError_def onEnded_def)

lemma onPlayRejected_onEnded: "onPlayRejected ok a s = onEnded ok a s"
  by (simp add: onPlayRejected_def onEnded_def playNext_playing Let_def)

lemma blink_of_layers:
  "blink_of (exprCrossFade d s) = blink_of s"
  "blink_of (lipSync d r s) = blink_of s"
  "blink_of (lipLerp d s) = blink_of s"
  by (simp_all add: blink_of_def exprCrossFade_def lipSync_def lipLerp_def face_defs truthy_def Let_def
      split: option.splits list.splits)

lemma blink_of_update: "blink_of (update d r1 r2 s) = blink_of (handleExpressions d r2 s)"
proof (cases "vrm s = None")
  case True
  then show ?thesis by (simp add: update_def handleExpressions_def)
next
  case False
  have "blink_of (lipLerp d (lipSync d r1 (exprCrossFade d s))) = blink_of s"
    by (simp add: blink_of_layers)
  from blink_of_cong [OF this, of d r2] show ?thesis using False by (auto simp: update_def)
qed

lemma blink_of_face:
  "blink_of (setEmotion k s) = blink_of s"
  "blink_of (stopSpeaking s) = blink_of s"
  "blink_of (startSpeaking t dur s) = blink_of s"
  "blink_of (setTimeout s) = blink_of s"
  "blink_of (clearTimeout h s) = blink_of s"
  "blink_of (upd_audio a f s) = blink_of s"
  "blink_of (clear s) = blink_of s"
  by (simp_all add: blink_of_def setEmotion_def startSpeaking_def face_defs clear_eq Let_def
      split: option.splits)

lemma blink_of_playNext: "blink_of (playNext ok s) = blink_of s"
proof (cases "dropWhile (\<lambda>it. \<not> ok (item_b64 it)) (queue s)")
  case Nil
  show ?thesis unfolding playNext_none [OF Nil] by (simp add: blink_of_def face_defs Let_def)
next
  case (Cons x r)
  show ?thesis unfolding playNext_some [OF Cons] by (simp add: blink_of_def)
qed

lemma blink_of_upd [simp]:
  "blink_of (s\<lparr>queue := q\<rparr>) = blink_of s"
  "blink_of (s\<lparr>currentAudio := c\<rparr>) = blink_of s"
  "blink_of (s\<lparr>playing := b\<rparr>) = blink_of s"
  "blink_of (s\<lparr>timers := ts\<rparr>) = blink_of s"
  "blink_of (s\<lparr>socket := so\<rparr>) = blink_of s"
  "blink_of (s\<lparr>sent := se\<rparr>) = blink_of s"
  "blink_of (s\<lparr>actions := ac\<rparr>) = blink_of s"
  by (simp_all add: blink_of_def)

lemma blink_of_enqueue: "blink_of (enqueue ok b t e s) = blink_of s"
  by (simp add: enqueue_def Let_def blink_of_playNext blink_of_face)

lemma blink_of_onEnded: "blink_of (onEnded ok a s) = blink_of s"
  by (simp add: onEnded_def Let_def blink_of_playNext blink_of_face)

lemma blink_of_onPlaying: "blink_of (onPlaying a dur s) = blink_of s"
  by (simp add: onPlaying_def Let_def blink_of_face split: option.splits)

lemma blink_of_handle: "blink_of (handle ok cmd s) = blink_of s"
  by (simp add: handle_def Let_def blink_of_enqueue blink_of_face split: option.splits)

lemma blink_of_send: "blink_of (send str s) = blink_of s"
  by (simp add: send_def Let_def blink_of_face)

lemma blink_of_step: "\<not> touches_blink e \<Longrightarrow> blink_of (step ok e s) = blink_of s"
  by (cases e)
     (simp_all add: returnToNeutral_def blink_of_face blink_of_handle blink_of_send
        blink_of_onPlaying blink_of_onEnded onError_onEnded onPlayRejected_onEnded)

lemma init_blink:
  assumes "blink_inv s" "0 \<le> r"
  shows "blink_inv (init em r s) \<and> blink_follows s (init em r s)"
proof -
  have f: "blink_follows s (init em r s)"
    by (cases "blinkState s") (simp_all add: init_def blink_follows_def)
  have "0 \<le> fl (r * 3)" using assms(2) by (intro fl_nonneg) simp
  then have "2 \<le> 2 + fl (r * 3)" by simp
  then have T0: "2 \<le> fl (2 + fl (r * 3))" by (rule fl_ge_fix) simp
  have "blink_inv (init em r s)"
    using assms(1) T0 by (cases "blinkState s") (simp_all add: blink_inv_def init_def)
  then show ?thesis using f by simp
qed

lemma step_blink:
  assumes "blink_inv s" "timing_ok e"
  shows "blink_inv (step ok e s) \<and> blink_follows s (step ok e s)"
proof (cases "touches_blink e")
  case False
  show ?thesis
    using assms(1) blink_inv_cong [OF blink_of_step [OF False, of ok s]]
      blink_follows_refl [OF blink_of_step [OF False, of ok s]] by simp
next
  case True
  then consider cd r1 r2 where "e = Frame cd r1 r2" | em r where "e = LoadModel em r"
    by (cases e) simp_all
  then show ?thesis
  proof cases
    case 1
    let ?d = "min cd (fl 0.05)"
    have d: "0 \<le> ?d" "?d \<le> fl 0.05" and r: "0 \<le> r2"
      using assms(2) 1 literal_bounds(3) by simp_all
    have h: "blink_inv (handleExpressions ?d r2 s) \<and> blink_follows s (handleExpressions ?d r2 s)"
      using handleExpressions_inv [OF assms(1) d r] .
    have eq: "blink_of (step ok e s) = blink_of (handleExpressions ?d r2 s)"
      using 1 by (simp add: animate_def blink_of_update)
    show ?thesis
      using h blink_inv_cong [OF eq] blink_follows_cong [OF refl eq, of s] by simp
  next
    case 2
    then show ?thesis using init_blink [OF assms(1), of r em] assms(2) by simp
  qed
qed

lemma phase_run:
  "blink_inv s \<Longrightarrow> \<forall>e \<in> set es. timing_ok e \<Longrightarrow> blink_inv (run ok es s) \<and> phases_ok ok es s"
proof (induction es arbitrary: s)
  case Nil
  then show ?case by simp
next
  case (Cons e es)
  have st: "blink_inv (step ok e s) \<and> blink_follows s (step ok e s)"
    using step_blink [of s e ok] Cons.prems by simp
  show ?case using Cons.IH [of "step ok e s"] st Cons.prems by simp
qed


text \<open>A full cycle spans at least four calls.\<close>

lemma cycle_frames_unfold:
  assumes "cycle_frames ts s = Some ds"
  obtains d r ts' where "ts = (d, r) # ts'"
    and "blinkState (handleExpressions d r s) = Idle \<Longrightarrow> ds = [d]"
    and "blinkState (handleExpressions d r s) \<noteq> Idle \<Longrightarrow>
           \<exists>ds'. ds = d # ds' \<and> cycle_frames ts' (handleExpressions d r s) = Some ds'"
proof (cases ts)
  case Nil
  then show ?thesis using assms by simp
next
  case (Cons a ts')
  obtain d r where a: "a = (d, r)" by (cases a)
  show ?thesis
  proof (rule that [of d r ts'])
    show "ts = (d, r) # ts'" using Cons a by simp
    show "blinkState (handleExpressions d r s) = Idle \<Longrightarrow> ds = [d]"
      using assms Cons a by (simp add: Let_def)
    show "blinkState (handleExpressions d r s) \<noteq> Idle \<Longrightarrow>
           \<exists>ds'. ds = d # ds' \<and> cycle_frames ts' (handleExpressions d r s) = Some ds'"
      using assms Cons a by (auto simp: Let_def)
  qed
qed

lemma cycle_frames_nonempty: "cycle_frames ts s = Some ds \<Longrightarrow> 1 \<le> length ds"
  by (erule cycle_frames_unfold) (cases "blinkState (handleExpressions (fst (hd ts)) (snd (hd ts)) s) = Idle", auto)

lemma opening_two:
  assumes "vrm s = Some True" "blinkState s = Opening" "blink_inv s" "blinkProg s = 1"
    and "\<forall>(d, r) \<in> set ts. 0 \<le> d \<and> d \<le> fl 0.05 \<and> 0 \<le> r"
    and "cycle_frames ts s = Some ds"
  shows "2 \<le> length ds"
proof -
  from assms(6) obtain d r ts' where ts: "ts = (d, r) # ts'"
    and nx: "blinkState (handleExpressions d r s) \<noteq> Idle \<Longrightarrow>
           \<exists>ds'. ds = d # ds' \<and> cycle_frames ts' (handleExpressions d r s) = Some ds'"
    by (rule cycle_frames_unfold) blast
  have dr: "0 \<le> d" "d \<le> fl 0.05" using assms(5) ts by simp_all
  have dur: "blinkDur s = fl 0.08" using assms(2,3) by (simp add: blink_inv_def)
  have pos: "0 < fl (blinkTimer s - d)"
    using timer_positive [OF assms(3) _ dr] assms(2) by simp
  have ne: "blinkState s \<noteq> Idle" using assms(2) by simp
  have "1 + fl (d / fl 0.08) \<le> 7 / 4" using quotient_bounds(2) [OF dr] by simp
  then have "fl (1 + fl (d / fl 0.08)) \<le> 7 / 4" by (rule fl_le_fix) (rule fl_dyadic(2))
  then have "\<not> 2 \<le> fl (blinkProg s + fl (d / fl 0.08))" using assms(4) by simp
  then have "blinkState (handleExpressions d r s) \<noteq> Idle"
    unfolding tick_in_blink [OF assms(1) ne dur pos] using assms(2) by simp
  from nx [OF this] obtain ds' where ds: "ds = d # ds'"
    and c: "cycle_frames ts' (handleExpressions d r s) = Some ds'" by blast
  show ?thesis using ds cycle_frames_nonempty [OF c] by simp
qed

lemma closing_three:
  assumes "vrm s = Some True" "blinkState s = Closing" "blink_inv s"
    and "\<forall>(d, r) \<in> set ts. 0 \<le> d \<and> d \<le> fl 0.05 \<and> 0 \<le> r"
    and "cycle_frames ts s = Some ds"
  shows "3 \<le> length ds"
  using assms
proof (induction ts arbitrary: s ds)
  case Nil
  then show ?case by simp
next
  case (Cons a ts)
  obtain d r where a: "a = (d, r)" by (cases a)
  have dr: "0 \<le> d" "d \<le> fl 0.05" "0 \<le> r" using Cons.prems(4) a by simp_all
  have rest: "\<forall>(d, r) \<in> set ts. 0 \<le> d \<and> d \<le> fl 0.05 \<and> 0 \<le> r" using Cons.prems(4) by simp
  let ?s' = "handleExpressions d r s"
  have dur: "blinkDur s = fl 0.08" using Cons.prems(2,3) by (simp add: blink_inv_def)
  have pos: "0 < fl (blinkTimer s - d)"
    using timer_positive [OF Cons.prems(3) _ dr(1,2)] Cons.prems(2) by simp
  have ne: "blinkState s \<noteq> Idle" using Cons.prems(2) by simp
  note eq = tick_in_blink [OF Cons.prems(1) ne dur pos, of r]
  have inv: "blink_inv ?s'" using handleExpressions_inv [OF Cons.prems(3) dr] by simp
  have v: "vrm ?s' = Some True" unfolding eq using Cons.prems(1,2) by simp
  have st: "blinkState ?s' = Closing \<or> (blinkState ?s' = Opening \<and> blinkProg ?s' = 1)"
    unfolding eq using Cons.prems(2) by simp
  then have "blinkState ?s' \<noteq> Idle" by auto
  then obtain ds' where ds: "ds = d # ds'" and c: "cycle_frames ts ?s' = Some ds'"
    using Cons.prems(5) a by (auto simp: Let_def)
  from st show ?case
  proof
    assume "blinkState ?s' = Closing"
    from Cons.IH [OF v this inv rest c] show ?thesis using ds by simp
  next
    assume "blinkState ?s' = Opening \<and> blinkProg ?s' = 1"
    then have "2 \<le> length ds'" using opening_two [OF v _ inv _ rest c] by simp
    then show ?thesis using ds by simp
  qed
qed

lemma cycle_from_idle:
  assumes "vrm s = Some True" "blinkState s = Idle" "blinkTimer s \<le> d1"
    and "\<forall>(d, r) \<in> set ((d1, r1) # ts). 0 \<le> d \<and> d \<le> fl 0.05 \<and> 0 \<le> r"
    and "cycle_frames ((d1, r1) # ts) s = Some ds"
  shows "blinkDur (handleExpressions d1 r1 s) = fl 0.08 \<and> 4 \<le> length ds"
proof -
  have dr: "0 \<le> d1" "d1 \<le> fl 0.05" "0 \<le> r1" using assms(4) by simp_all
  have rest: "\<forall>(d, r) \<in> set ts. 0 \<le> d \<and> d \<le> fl 0.05 \<and> 0 \<le> r" using assms(4) by simp
  let ?s' = "handleExpressions d1 r1 s"
  note eq = tick_start [OF assms(1,2,3) dr(1,2), of r1]
  have inv0: "blink_inv s" using assms(2) by (simp add: blink_inv_def)
  have inv: "blink_inv ?s'" using handleExpressions_inv [OF inv0 dr] by simp
  have st: "blinkState ?s' = Closing" and v: "vrm ?s' = Some True"
    and dur: "blinkDur ?s' = fl 0.08"
    unfolding eq using assms(1) by simp_all
  obtain ds' where ds: "ds = d1 # ds'" and c: "cycle_frames ts ?s' = Some ds'"
    using assms(5) st by (auto simp: Let_def)
  show ?thesis using closing_three [OF v st inv rest c] ds dur by simp
qed

text \<open>The blink of src/main.js.\<close>

lemmas main_consts = CLOSE_def HOLD_def OPEN_time_def TOTAL_def

lemma main_thresholds: "CLOSE \<le> TOTAL" "fl (CLOSE + HOLD) \<le> TOTAL" "3 / 16 < TOTAL"
proof -
  have T: "0.19 \<le> TOTAL" using literal_bounds(5) by (simp add: TOTAL_def)
  show "3 / 16 < TOTAL" using T by simp
  show "CLOSE \<le> TOTAL" using T literal_bounds(6) by (simp add: CLOSE_def)
  have "CLOSE + HOLD \<le> 1 / 8" using literal_bounds(6,7) by (simp add: CLOSE_def HOLD_def)
  then have "fl (CLOSE + HOLD) \<le> 1 / 8" by (rule fl_le_fix) (rule fl_dyadic(4))
  then show "fl (CLOSE + HOLD) \<le> TOTAL" using T by simp
qed

lemma main_tick_blinking:
  assumes "main_blinking b"
  shows "main_blinkPhase (blink_main_tick d r b) = fl (main_blinkPhase b + d)"
    and "main_blinkCooldown (blink_main_tick d r b) = main_blinkCooldown b"
    and "main_blinking (blink_main_tick d r b) = (fl (main_blinkPhase b + d) < TOTAL)"
  using assms main_thresholds(1,2) by (auto simp: blink_main_tick_def Let_def)

lemma main_tick_ahead:
  assumes "main_blinking b" "main_blinkPhase b \<le> x" "x + 1 / 16 \<le> 3 / 16"
    and "fl (x + 1 / 16) = x + 1 / 16" "0 \<le> d" "d \<le> fl 0.05"
  shows "main_blinking (blink_main_tick d r b)"
    and "main_blinkPhase (blink_main_tick d r b) \<le> x + 1 / 16"
proof -
  have "d \<le> 1 / 16" using assms(6) literal_bounds(4) by simp
  then have "main_blinkPhase b + d \<le> x + 1 / 16" using assms(2) by simp
  then have le: "fl (main_blinkPhase b + d) \<le> x + 1 / 16" by (rule fl_le_fix) (rule assms(4))
  show "main_blinkPhase (blink_main_tick d r b) \<le> x + 1 / 16"
    using le by (simp add: main_tick_blinking(1) [OF assms(1)])
  show "main_blinking (blink_main_tick d r b)"
    using le assms(3) main_thresholds(3) by (simp add: main_tick_blinking(3) [OF assms(1)])
qed

lemma main_tick_start:
  assumes "\<not> main_blinking b" "main_blinkCooldown b \<le> fl (main_blinkTimer b + d)"
    and "0 \<le> d" "d \<le> fl 0.05"
  shows "main_blinking (blink_main_tick d r b)"
    and "main_blinkPhase (blink_main_tick d r b) \<le> 1 / 16"
proof -
  have "d \<le> 1 / 16" using assms(4) literal_bounds(4) by simp
  then have le: "fl d \<le> 1 / 16" by (rule fl_le_fix) (rule fl_dyadic(3))
  then have lt: "fl d < TOTAL" using main_thresholds(3) by simp
  have ph: "main_blinkPhase (blink_main_tick d r b) = fl d"
    using assms(1,2) by (simp add: blink_main_tick_def Let_def)
  show "main_blinkPhase (blink_main_tick d r b) \<le> 1 / 16" using ph le by simp
  show "main_blinking (blink_main_tick d r b)"
    using assms(1,2) lt main_thresholds(1,2) by (auto simp: blink_main_tick_def Let_def)
qed

lemma cycle_main_unfold:
  assumes "cycle_frames_main ts b = Some ds"
  obtains d r ts' where "ts = (d, r) # ts'"
    and "main_blinking (blink_main_tick d r b) \<Longrightarrow>
           \<exists>ds'. ds = d # ds' \<and> cycle_frames_main ts' (blink_main_tick d r b) = Some ds'"
proof (cases ts)
  case Nil
  then show ?thesis using assms by simp
next
  case (Cons a ts')
  obtain d r where a: "a = (d, r)" by (cases a)
  show ?thesis
  proof (rule that [of d r ts'])
    show "ts = (d, r) # ts'" using Cons a by simp
    show "main_blinking (blink_main_tick d r b) \<Longrightarrow>
           \<exists>ds'. ds = d # ds' \<and> cycle_frames_main ts' (blink_main_tick d r b) = Some ds'"
      using assms Cons a by (auto simp: Let_def)
  qed
qed

lemma cycle_main_from_idle:
  assumes "\<not> main_blinking b" "main_blinkCooldown b \<le> fl (main_blinkTimer b + d1)"
    and "\<forall>(d, r) \<in> set ((d1, r1) # ts). 0 \<le> d \<and> d \<le> fl 0.05 \<and> 0 \<le> r"
    and "cycle_frames_main ((d1, r1) # ts) b = Some ds"
  shows "4 \<le> length ds"
proof -
  have dr1: "0 \<le> d1" "d1 \<le> fl 0.05" using assms(3) by simp_all
  let ?b1 = "blink_main_tick d1 r1 b"
  note s1 = main_tick_start [OF assms(1,2) dr1, of r1]
  obtain ds1 where ds: "ds = d1 # ds1" and c1: "cycle_frames_main ts ?b1 = Some ds1"
    using assms(4) s1(1) by (auto simp: Let_def)
  from c1 obtain d2 r2 ts2 where ts: "ts = (d2, r2) # ts2"
    and n2: "main_blinking (blink_main_tick d2 r2 ?b1) \<Longrightarrow>
           \<exists>ds'. ds1 = d2 # ds' \<and> cycle_frames_main ts2 (blink_main_tick d2 r2 ?b1) = Some ds'"
    by (rule cycle_main_unfold) blast
  have dr2: "0 \<le> d2" "d2 \<le> fl 0.05" using assms(3) ts by simp_all
  let ?b2 = "blink_main_tick d2 r2 ?b1"
  have s2: "main_blinking ?b2" "main_blinkPhase ?b2 \<le> 1 / 8"
    using main_tick_ahead [OF s1(1) s1(2) _ _ dr2, of r2] fl_dyadic(4) by simp_all
  from n2 [OF s2(1)] obtain ds2 where ds1: "ds1 = d2 # ds2"
    and c2: "cycle_frames_main ts2 ?b2 = Some ds2" by blast
  from c2 obtain d3 r3 ts3 where ts2: "ts2 = (d3, r3) # ts3"
    and n3: "main_blinking (blink_main_tick d3 r3 ?b2) \<Longrightarrow>
           \<exists>ds'. ds2 = d3 # ds' \<and> cycle_frames_main ts3 (blink_main_tick d3 r3 ?b2) = Some ds'"
    by (rule cycle_main_unfold) blast
  have dr3: "0 \<le> d3" "d3 \<le> fl 0.05" using assms(3) ts ts2 by simp_all
  let ?b3 = "blink_main_tick d3 r3 ?b2"
  have s3: "main_blinking ?b3"
    using main_tick_ahead(1) [OF s2(1) s2(2) _ _ dr3, of r3] fl_dyadic(5) by simp
  from n3 [OF s3] obtain ds3 where ds2: "ds2 = d3 # ds3"
    and c3: "cycle_frames_main ts3 ?b3 = Some ds3" by blast
  have "ds3 \<noteq> []" using c3 by (cases ts3) (auto simp: Let_def split: if_splits)
  then show ?thesis using ds ds1 ds2 by (cases ds3) simp_all
qed

lemma fl_val:
  assumes "2 powi k \<le> \<bar>x\<bar>" "\<bar>x\<bar> < 2 powi (k + 1)" "- 1022 \<le> k"
    and "rne (x * 2 powi (52 - k)) = n"
  shows "fl x = of_int n / 2 powi (52 - k)"
proof -
  have "x / 2 powi (k - 52) = x * 2 powi (52 - k)"
    by (simp add: power_int_diff field_simps)
  moreover have "of_int n * (2 :: real) powi (k - 52) = of_int n / 2 powi (52 - k)"
    by (simp add: power_int_diff field_simps)
  ultimately show ?thesis using fl_eval [OF assms(1,2,3)] assms(4) by simp
qed

lemma blink_amt_at_end:
  assumes "vrm s = Some True" "blinkState s = Opening" "blink_inv s" "0 \<le> d" "d \<le> fl 0.05"
    and "blinkState (handleExpressions d r s) = Idle"
  shows "blinkAmt d r s = Some 1"
proof -
  have dur: "blinkDur s = fl 0.08" using assms(2,3) by (simp add: blink_inv_def)
  have pos: "0 < fl (blinkTimer s - d)"
    using timer_positive [OF assms(3) _ assms(4,5)] assms(2) by simp
  have ne: "blinkState s \<noteq> Idle" using assms(2) by simp
  note eq = tick_in_blink [OF assms(1) ne dur pos, of r]
  have "blinkProg (handleExpressions d r s) = 0"
    using assms(6) unfolding eq using assms(2) by (simp split: if_splits)
  then show ?thesis using assms(1,2,6) by (simp add: blinkAmt_def Let_def)
qed


text \<open>
  Evaluation of the sample frames: the doubles that the operations of the two machines
  produce on frames of 50 ms and of 16 ms.
\<close>

lemma eval_frames50:
  "fl (1 / 20) = 7205759403792794 / 2 ^ 57"
  "fl (1 / 100) = 5764607523034235 / 2 ^ 59"
  "fl (- (23058430092136941 / 576460752303423488)) = - 5764607523034235 / 2 ^ 57"
  "fl (2 / 25) = 5764607523034235 / 2 ^ 56"
  "fl (3602879701896397 / 5764607523034235) = 5629499534213120 / 2 ^ 53"
  "fl (5 / 8) = 5629499534213120 / 2 ^ 53"
  "fl (140512308373959475 / 72057594037927936) = 8782019273372467 / 2 ^ 52"
  "fl (5 / 4) = 5629499534213120 / 2 ^ 52"
  "fl (136909428672063075 / 72057594037927936) = 8556839292003942 / 2 ^ 52"
  "fl (13 / 8) = 7318349394477056 / 2 ^ 52"
  "fl (133306548970166675 / 72057594037927936) = 8331659310635417 / 2 ^ 52"
  "fl (9 / 4) = 5066549580791808 / 2 ^ 51"
  using
    fl_val [of "- 5" "1 / 20" "7205759403792794"]
    fl_val [of "- 7" "1 / 100" "5764607523034235"]
    fl_val [of "- 5" "- (23058430092136941 / 576460752303423488)" "- 5764607523034235"]
    fl_val [of "- 4" "2 / 25" "5764607523034235"]
    fl_val [of "- 1" "3602879701896397 / 5764607523034235" "5629499534213120"]
    fl_val [of "- 1" "5 / 8" "5629499534213120"]
    fl_val [of "0" "140512308373959475 / 72057594037927936" "8782019273372467"]
    fl_val [of "0" "5 / 4" "5629499534213120"]
    fl_val [of "0" "136909428672063075 / 72057594037927936" "8556839292003942"]
    fl_val [of "0" "13 / 8" "7318349394477056"]
    fl_val [of "0" "133306548970166675 / 72057594037927936" "8331659310635417"]
    fl_val [of "1" "9 / 4" "5066549580791808"]
  by (simp_all add: rne_def Let_def power_int_minus_divide)

lemma eval_frames16:
  "fl (2 / 125) = 4611686018427388 / 2 ^ 58"
  "fl (- (3458764513820541 / 576460752303423488)) = - 6917529027641082 / 2 ^ 60"
  "fl (1 / 5) = 7205759403792794 / 2 ^ 55"
  "fl (3602879701896397 / 18014398509481984) = 7205759403792794 / 2 ^ 55"
  "fl (142962266571249025 / 72057594037927936) = 8935141660703064 / 2 ^ 52"
  "fl (3602879701896397 / 9007199254740992) = 7205759403792794 / 2 ^ 54"
  "fl (141809345066642177 / 72057594037927936) = 8863084066665136 / 2 ^ 52"
  "fl (10808639105689191 / 18014398509481984) = 5404319552844596 / 2 ^ 53"
  "fl (140656423562035329 / 72057594037927936) = 8791026472627208 / 2 ^ 52"
  "fl (14411518807585589 / 18014398509481984) = 7205759403792794 / 2 ^ 53"
  "fl (139503502057428481 / 72057594037927936) = 8718968878589280 / 2 ^ 52"
  "fl (18014398509481985 / 18014398509481984) = 4503599627370496 / 2 ^ 52"
  "fl (138350580552821633 / 72057594037927936) = 8646911284551352 / 2 ^ 52"
  "fl (21617278211378381 / 18014398509481984) = 5404319552844595 / 2 ^ 52"
  "fl (137197659048214785 / 72057594037927936) = 8574853690513424 / 2 ^ 52"
  "fl (25220157913274777 / 18014398509481984) = 6305039478318694 / 2 ^ 52"
  "fl (136044737543607937 / 72057594037927936) = 8502796096475496 / 2 ^ 52"
  "fl (28823037615171173 / 18014398509481984) = 7205759403792793 / 2 ^ 52"
  "fl (134891816039001089 / 72057594037927936) = 8430738502437568 / 2 ^ 52"
  "fl (32425917317067569 / 18014398509481984) = 8106479329266892 / 2 ^ 52"
  "fl (133738894534394241 / 72057594037927936) = 8358680908399640 / 2 ^ 52"
  "fl (36028797018963965 / 18014398509481984) = 9007199254740991 / 2 ^ 52"
  "fl (132585973029787393 / 72057594037927936) = 8286623314361712 / 2 ^ 52"
  "fl (39631676720860361 / 18014398509481984) = 4953959590107545 / 2 ^ 51"
  using
    fl_val [of "- 6" "2 / 125" "4611686018427388"]
    fl_val [of "- 8" "- (3458764513820541 / 576460752303423488)" "- 6917529027641082"]
    fl_val [of "- 3" "1 / 5" "7205759403792794"]
    fl_val [of "- 3" "3602879701896397 / 18014398509481984" "7205759403792794"]
    fl_val [of "0" "142962266571249025 / 72057594037927936" "8935141660703064"]
    fl_val [of "- 2" "3602879701896397 / 9007199254740992" "7205759403792794"]
    fl_val [of "0" "141809345066642177 / 72057594037927936" "8863084066665136"]
    fl_val [of "- 1" "10808639105689191 / 18014398509481984" "5404319552844596"]
    fl_val [of "0" "140656423562035329 / 72057594037927936" "8791026472627208"]
    fl_val [of "- 1" "14411518807585589 / 18014398509481984" "7205759403792794"]
    fl_val [of "0" "139503502057428481 / 72057594037927936" "8718968878589280"]
    fl_val [of "0" "18014398509481985 / 18014398509481984" "4503599627370496"]
    fl_val [of "0" "138350580552821633 / 72057594037927936" "8646911284551352"]
    fl_val [of "0" "21617278211378381 / 18014398509481984" "5404319552844595"]
    fl_val [of "0" "137197659048214785 / 72057594037927936" "8574853690513424"]
    fl_val [of "0" "25220157913274777 / 18014398509481984" "6305039478318694"]
    fl_val [of "0" "136044737543607937 / 72057594037927936" "8502796096475496"]
    fl_val [of "0" "28823037615171173 / 18014398509481984" "7205759403792793"]
    fl_val [of "0" "134891816039001089 / 72057594037927936" "8430738502437568"]
    fl_val [of "0" "32425917317067569 / 18014398509481984" "8106479329266892"]
    fl_val [of "0" "133738894534394241 / 72057594037927936" "8358680908399640"]
    fl_val [of "0" "36028797018963965 / 18014398509481984" "9007199254740991"]
    fl_val [of "0" "132585973029787393 / 72057594037927936" "8286623314361712"]
    fl_val [of "1" "39631676720860361 / 18014398509481984" "4953959590107545"]
  by (simp_all add: rne_def Let_def power_int_minus_divide)

lemma eval_frames_main:
  "fl (249 / 100) = 5606981536076268 / 2 ^ 51"
  "fl (5 / 2) = 5629499534213120 / 2 ^ 51"
  "fl (7 / 100) = 5044031582654956 / 2 ^ 56"
  "fl (1 / 25) = 5764607523034235 / 2 ^ 57"
  "fl (9 / 100) = 6485183463413514 / 2 ^ 56"
  "fl (15852670688344147 / 144115188075855872) = 7926335344172074 / 2 ^ 56"
  "fl (183026288856336973 / 72057594037927936) = 5719571526760530 / 2 ^ 51"
  "fl (3602879701896397 / 72057594037927936) = 7205759403792794 / 2 ^ 57"
  "fl (3602879701896397 / 36028797018963968) = 7205759403792794 / 2 ^ 56"
  "fl (10808639105689191 / 72057594037927936) = 5404319552844596 / 2 ^ 55"
  "fl (14411518807585589 / 72057594037927936) = 7205759403792794 / 2 ^ 55"
  using
    fl_val [of "1" "249 / 100" "5606981536076268"]
    fl_val [of "1" "5 / 2" "5629499534213120"]
    fl_val [of "- 4" "7 / 100" "5044031582654956"]
    fl_val [of "- 5" "1 / 25" "5764607523034235"]
    fl_val [of "- 4" "9 / 100" "6485183463413514"]
    fl_val [of "- 4" "15852670688344147 / 144115188075855872" "7926335344172074"]
    fl_val [of "1" "183026288856336973 / 72057594037927936" "5719571526760530"]
    fl_val [of "- 5" "3602879701896397 / 72057594037927936" "7205759403792794"]
    fl_val [of "- 4" "3602879701896397 / 36028797018963968" "7205759403792794"]
    fl_val [of "- 3" "10808639105689191 / 72057594037927936" "5404319552844596"]
    fl_val [of "- 3" "14411518807585589 / 72057594037927936" "7205759403792794"]
  by (simp_all add: rne_def Let_def power_int_minus_divide)

lemma eval_frames_main20:
  "fl (1 / 50) = 5764607523034235 / 2 ^ 58"
  "fl (723458244140796539 / 288230376151711744) = 5652017532349973 / 2 ^ 51"
  "fl (5764607523034235 / 288230376151711744) = 5764607523034235 / 2 ^ 58"
  "fl (5764607523034235 / 144115188075855872) = 5764607523034235 / 2 ^ 57"
  "fl (17293822569102705 / 288230376151711744) = 8646911284551352 / 2 ^ 57"
  "fl (23058430092136939 / 288230376151711744) = 5764607523034235 / 2 ^ 56"
  "fl (28823037615171175 / 288230376151711744) = 7205759403792794 / 2 ^ 56"
  "fl (34587645138205411 / 288230376151711744) = 8646911284551353 / 2 ^ 56"
  "fl (40352252661239647 / 288230376151711744) = 5044031582654956 / 2 ^ 55"
  "fl (46116860184273883 / 288230376151711744) = 5764607523034235 / 2 ^ 55"
  "fl (51881467707308115 / 288230376151711744) = 6485183463413514 / 2 ^ 55"
  "fl (57646075230342347 / 288230376151711744) = 7205759403792793 / 2 ^ 55"
  "fl (63410682753376579 / 288230376151711744) = 7926335344172072 / 2 ^ 55"
  using
    fl_val [of "- 6" "1 / 50" "5764607523034235"]
    fl_val [of "1" "723458244140796539 / 288230376151711744" "5652017532349973"]
    fl_val [of "- 6" "5764607523034235 / 288230376151711744" "5764607523034235"]
    fl_val [of "- 5" "5764607523034235 / 144115188075855872" "5764607523034235"]
    fl_val [of "- 5" "17293822569102705 / 288230376151711744" "8646911284551352"]
    fl_val [of "- 4" "23058430092136939 / 288230376151711744" "5764607523034235"]
    fl_val [of "- 4" "28823037615171175 / 288230376151711744" "7205759403792794"]
    fl_val [of "- 4" "34587645138205411 / 288230376151711744" "8646911284551353"]
    fl_val [of "- 3" "40352252661239647 / 288230376151711744" "5044031582654956"]
    fl_val [of "- 3" "46116860184273883 / 288230376151711744" "5764607523034235"]
    fl_val [of "- 3" "51881467707308115 / 288230376151711744" "6485183463413514"]
    fl_val [of "- 3" "57646075230342347 / 288230376151711744" "7205759403792793"]
    fl_val [of "- 3" "63410682753376579 / 288230376151711744" "7926335344172072"]
  by (simp_all add: rne_def Let_def power_int_minus_divide)

lemma frames_unfold:
  "frames 4 d = (fl d, 0) # frames 3 d"
  "frames 3 d = [(fl d, 0), (fl d, 0), (fl d, 0)]"
  "frames 10 d = (fl d, 0) # (fl d, 0) # (fl d, 0) # (fl d, 0) # (fl d, 0) # (fl d, 0) #
                 (fl d, 0) # frames 3 d"
  "frames 11 d = (fl d, 0) # (fl d, 0) # (fl d, 0) # (fl d, 0) # (fl d, 0) # (fl d, 0) #
                 (fl d, 0) # (fl d, 0) # frames 3 d"
  by (simp_all add: frames_def eval_nat_numeral)

lemma replicate_frames:
  "replicate 4 x = [x, x, x, x]"
  "replicate 11 x = [x, x, x, x, x, x, x, x, x, x, x]"
  by (simp_all add: eval_nat_numeral)

lemmas blink_eval = demo_blink_def init_def world0_def handleExpressions_def Let_def

lemma demo_cycle50:
  "cycle_frames (frames 4 0.05) demo_blink = Some (replicate 4 (fl 0.05))"
  unfolding frames_unfold replicate_frames
  by (simp add: blink_eval eval_frames50)

lemma demo_cycle16:
  "cycle_frames (frames 11 0.016) demo_blink = Some (replicate 11 (fl 0.016))"
  unfolding frames_unfold replicate_frames
  by (simp add: blink_eval eval_frames50 eval_frames16)

text \<open>
  After ten frames of 16 ms the progress is one unit in the last place short of 2, and the
  machine is still opening.
\<close>

lemma ten_frames_of_16ms:
  "blinkState (fold (\<lambda>(d, r). handleExpressions d r) (frames 10 0.016) demo_blink) = Opening \<and>
   blinkProg (fold (\<lambda>(d, r). handleExpressions d r) (frames 10 0.016) demo_blink) =
     2 - 1 / 2 ^ 52"
  unfolding frames_unfold
  by (simp add: blink_eval eval_frames50 eval_frames16)

lemma demo_cycle_main:
  "cycle_frames_main (frames 4 0.05) demo_blink_main = Some (replicate 4 (fl 0.05))"
  unfolding frames_unfold replicate_frames
  by (simp add: demo_blink_main_def blink_main_tick_def main_consts Let_def eval_frames50
      eval_frames16 eval_frames_main)

text \<open>
  In src/main.js ten frames of 20 ms add up to a phase time just below \<^verbatim>\<open>TOTAL\<close>, and
  the blink takes an eleventh frame.
\<close>

lemma eleven_frames_of_20ms:
  "cycle_frames_main (frames 11 0.02) demo_blink_main = Some (replicate 11 (fl 0.02))"
  unfolding frames_unfold replicate_frames
  by (simp add: demo_blink_main_def blink_main_tick_def main_consts Let_def eval_frames50
      eval_frames16 eval_frames_main eval_frames_main20)



section \<open>An item enqueued during playback\<close>

lemma tts_of_face:
  "tts_of (setEmotion k s) = tts_of s"
  "tts_of (stopSpeaking s) = tts_of s"
  "tts_of (startSpeaking t dur s) = tts_of s"
  "tts_of (setTimeout s) = tts_of s"
  "tts_of (clearTimeout h s) = tts_of s"
  "tts_of (init em r s) = tts_of s"
  "tts_of (exprCrossFade d s) = tts_of s"
  "tts_of (lipLerp d s) = tts_of s"
  "tts_of (handleExpressions d r s) = tts_of s"
  by (simp_all add: tts_of_def setEmotion_def startSpeaking_def face_defs init_def
      exprCrossFade_def lipLerp_def handleExpressions_def Let_def split: option.splits)

lemma tts_of_lipSync: "tts_of (lipSync d r s) = tts_of s"
  by (simp add: tts_of_def lipSync_def face_defs truthy_def Let_def split: option.splits list.splits)

lemma tts_of_update: "tts_of (update d r1 r2 s) = tts_of s"
  by (simp add: update_def tts_of_face tts_of_lipSync)

lemma tts_of_upd [simp]:
  "tts_of (s\<lparr>timers := ts\<rparr>) = tts_of s"
  "tts_of (s\<lparr>socket := so\<rparr>) = tts_of s"
  "tts_of (s\<lparr>actions := ac\<rparr>) = tts_of s"
  by (simp_all add: tts_of_def)

lemma tts_of_playingArmed:
  "tts_of (upd_audio a (\<lambda>au. au\<lparr>playingArmed := False\<rparr>) s) = tts_of s"
proof -
  have "map flags_of ((audios s)[a := (audios s ! a)\<lparr>playingArmed := False\<rparr>]) = map flags_of (audios s)"
  proof (cases "a < length (audios s)")
    case True
    have "flags_of ((audios s ! a)\<lparr>playingArmed := False\<rparr>) = map flags_of (audios s) ! a"
      using True by (simp add: flags_of_def)
    then show ?thesis by (simp add: map_update)
  next
    case False
    then have "length (audios s) \<le> a" by simp
    then have "(audios s)[a := (audios s ! a)\<lparr>playingArmed := False\<rparr>] = audios s"
      by (rule list_update_beyond)
    then show ?thesis by simp
  qed
  then show ?thesis by (simp add: tts_of_def upd_audio_def)
qed

lemma tts_of_onPlaying: "tts_of (onPlaying a dur s) = tts_of s"
  by (simp add: onPlaying_def Let_def tts_of_face split: option.splits)


lemma enqueue_playing:
  "playing s \<Longrightarrow>
   enqueue ok b t e s =
     (clearTimeout (neutralTimer s) s)
       \<lparr>queue := queue s @ [\<lparr>item_b64 = b, item_text = t, item_emotion = e\<rparr>]\<rparr>"
  by (cases "neutralTimer s") (simp_all add: enqueue_def clearTimeout_def Let_def)

lemma reports_end_cong:
  assumes "tts_of s' = tts_of s"
  shows "reports_end s' e = reports_end s e"
proof -
  have m: "map flags_of (audios s') = map flags_of (audios s)"
    using assms by (simp add: tts_of_def)
  have len: "length (audios s') = length (audios s)"
    using m by (metis length_map)
  have f: "flags_of (audios s' ! a) = flags_of (audios s ! a)" if "a < length (audios s)" for a
    using m that len by (metis nth_map)
  have fl: "endedArmed (audios s' ! a) = endedArmed (audios s ! a) \<and>
           errorArmed (audios s' ! a) = errorArmed (audios s ! a) \<and>
           playPending (audios s' ! a) = playPending (audios s ! a)" if "a < length (audios s)" for a
    using f [OF that] by (simp add: flags_of_def)
  show ?thesis using len fl by (cases e) auto
qed

lemma holds_turn_cong:
  assumes "tts_of s' = tts_of s" "holds_turn a1 s0 s"
  shows "holds_turn a1 s0 s'"
proof -
  have p: "playing s' = playing s" "currentAudio s' = currentAudio s" "queue s' = queue s"
    and m: "map flags_of (audios s') = map flags_of (audios s)"
    using assms(1) by (simp_all add: tts_of_def)
  have len: "length (audios s') = length (audios s)" using m by (metis length_map)
  show ?thesis
    using assms(2) p len reports_end_cong [OF assms(1)] by (simp add: holds_turn_def)
qed

lemma holds_turn_upd:
  "holds_turn a1 s0 (s\<lparr>actions := ac\<rparr>) = holds_turn a1 s0 s"
  "holds_turn a1 s0 (s\<lparr>timers := ts\<rparr>) = holds_turn a1 s0 s"
proof -
  have "reports_end (s\<lparr>actions := ac\<rparr>) e = reports_end s e" for e by (cases e) simp_all
  then show "holds_turn a1 s0 (s\<lparr>actions := ac\<rparr>) = holds_turn a1 s0 s"
    by (simp add: holds_turn_def)
  have "reports_end (s\<lparr>timers := ts\<rparr>) e = reports_end s e" for e by (cases e) simp_all
  then show "holds_turn a1 s0 (s\<lparr>timers := ts\<rparr>) = holds_turn a1 s0 s"
    by (simp add: holds_turn_def)
qed

lemma holds_turn_append:
  assumes "holds_turn a1 s0 s"
  shows "holds_turn a1 s0 (s\<lparr>queue := queue s @ q\<rparr>)"
proof -
  have "reports_end (s\<lparr>queue := queue s @ q\<rparr>) e = reports_end s e" for e by (cases e) simp_all
  then show ?thesis using assms by (auto simp: holds_turn_def)
qed

lemma handle_holds:
  assumes "holds_turn a1 s0 s"
  shows "holds_turn a1 s0 (handle ok cmd s)"
proof -
  have pl: "playing s" using assms by (simp add: holds_turn_def)
  have enq: "holds_turn a1 s0 (enqueue ok b t e s)" for b t e
  proof -
    have "holds_turn a1 s0 (clearTimeout (neutralTimer s) s)"
      using assms by (cases "neutralTimer s") (simp_all add: clearTimeout_def holds_turn_upd)
    from holds_turn_append [OF this] show ?thesis
      unfolding enqueue_playing [OF pl]
      by (cases "neutralTimer s") (simp_all add: clearTimeout_def)
  qed
  have emo: "holds_turn a1 s0 (setEmotion k s)" for k
    using holds_turn_cong [OF tts_of_face(1) assms] .
  show ?thesis
    using assms enq emo by (auto simp: handle_def Let_def holds_turn_upd split: option.splits)
qed

lemma step_holds:
  assumes "holds_turn a1 s0 s" "\<not> reports_end s0 e"
  shows "holds_turn a1 s0 (step ok e s)"
proof -
  have quiet: "\<not> reports_end s e" using assms by (auto simp: holds_turn_def)
  show ?thesis
  proof (cases e)
    case (Frame cd r1 r2)
    then show ?thesis using holds_turn_cong [OF tts_of_update assms(1)] by (simp add: animate_def)
  next
    case (Timeout i)
    have "tts_of (returnToNeutral (s\<lparr>timers := removeAll i (timers s)\<rparr>)) = tts_of s"
      by (simp add: returnToNeutral_def tts_of_face)
    from holds_turn_cong [OF this assms(1)] show ?thesis using Timeout assms(1) by simp
  next
    case (LoadModel em r)
    then show ?thesis using holds_turn_cong [OF tts_of_face(6) assms(1)] by simp
  next
    case (SocketState r)
    then show ?thesis using holds_turn_cong [OF tts_of_upd(2) assms(1)] by simp
  next
    case (Message cmd)
    then show ?thesis using handle_holds [OF assms(1)] by simp
  next
    case (UserSend str)
    then show ?thesis using assms(2) by simp
  next
    case (AudioPlaying a dur)
    have "tts_of (onPlaying a dur (upd_audio a (\<lambda>au. au\<lparr>playingArmed := False\<rparr>) s)) = tts_of s"
      by (simp add: tts_of_onPlaying tts_of_playingArmed)
    from holds_turn_cong [OF this assms(1)] show ?thesis using AudioPlaying assms(1) by simp
  next
    case (AudioEnded a)
    then have "step ok e s = s" using quiet by auto
    then show ?thesis using assms(1) by simp
  next
    case (AudioError a)
    then have "step ok e s = s" using quiet by auto
    then show ?thesis using assms(1) by simp
  next
    case (PlayRejected a)
    then have "step ok e s = s" using quiet by auto
    then show ?thesis using assms(1) by simp
  next
    case (PlayResolved a)
    show ?thesis
    proof (cases "a < length (audios s) \<and> playPending (audios s ! a)")
      case False
      then have "step ok e s = s" using PlayResolved by auto
      then show ?thesis using assms(1) by simp
    next
      case True
      let ?s' = "upd_audio a (\<lambda>au. au\<lparr>playPending := False\<rparr>) s"
      have st: "step ok e s = ?s'" using PlayResolved True by simp
      have le: "reports_end ?s' e' \<longrightarrow> reports_end s e'" for e'
        using True by (cases e') (auto simp: upd_audio_def nth_list_update)
      show ?thesis
        unfolding st using assms(1) le
        by (auto simp: holds_turn_def upd_audio_def)
    qed
  qed
qed

lemma run_holds:
  assumes "holds_turn a1 s0 s" "\<forall>e \<in> set es. \<not> reports_end s0 e"
  shows "holds_turn a1 s0 (run ok es s)"
  using assms
proof (induction es arbitrary: s)
  case Nil
  then show ?case by simp
next
  case (Cons e es)
  have "holds_turn a1 s0 (step ok e s)"
    using step_holds [OF Cons.prems(1), of e ok] Cons.prems(2) by simp
  then show ?case using Cons.IH [of "step ok e s"] Cons.prems(2) by simp
qed

lemma sole_player_reports:
  assumes "sole_player a1 s" "reports_end s e"
  shows "e = AudioEnded a1 \<or> e = AudioError a1 \<or> (\<exists>str. e = UserSend str)"
  using assms by (cases e) (auto simp: sole_player_def)

lemma playNext_starts:
  assumes "queue u = it # rest" "ok (item_b64 it)"
  shows "playNext ok u =
           u\<lparr>playing := True, queue := rest, audios := audios u @ [newAudio it],
             currentAudio := Some (length (audios u))\<rparr>"
proof -
  have "dropWhile (\<lambda>it. \<not> ok (item_b64 it)) (queue u) = it # rest"
    using assms by simp
  from playNext_some [OF this] show ?thesis .
qed


lemma demo_sole_player: "sole_player 0 demo_playing"
  using demo_playing_tts by (simp add: sole_player_def)


section \<open>What clear() leaves behind\<close>

lemma tts_fields:
  assumes "tts_of s' = tts_of s"
  shows "queue s' = queue s" "length (audios s') = length (audios s)"
proof -
  show "queue s' = queue s" using assms by (simp add: tts_of_def)
  have "map flags_of (audios s') = map flags_of (audios s)" using assms by (simp add: tts_of_def)
  then show "length (audios s') = length (audios s)" by (metis length_map)
qed

lemma idle_fields:
  "queue (upd_audio a f s) = queue s" "length (audios (upd_audio a f s)) = length (audios s)"
  by (simp_all add: upd_audio_def)

lemma onEnded_idle:
  assumes "queue s = []"
  shows "queue (onEnded ok a s) = [] \<and> length (audios (onEnded ok a s)) = length (audios s)"
proof -
  have "dropWhile (\<lambda>it. \<not> ok (item_b64 it)) (queue s) = []" using assms by simp
  from onEnded_none [OF this] show ?thesis by (simp add: face_defs Let_def)
qed

lemma clear_idle: "queue (clear s) = [] \<and> length (audios (clear s)) = length (audios s)"
  by (simp add: clear_eq split: option.splits)

lemma step_idle:
  assumes "queue s = []" "\<not> enqueues e"
  shows "queue (step ok e s) = [] \<and> length (audios (step ok e s)) = length (audios s)"
proof (cases e)
  case (Frame cd r1 r2)
  then show ?thesis using tts_fields [OF tts_of_update] assms(1) by (simp add: animate_def)
next
  case (Timeout i)
  have "tts_of (returnToNeutral (s\<lparr>timers := removeAll i (timers s)\<rparr>)) = tts_of s"
    by (simp add: returnToNeutral_def tts_of_face)
  from tts_fields [OF this] show ?thesis using Timeout assms(1) by simp
next
  case (LoadModel em r)
  then show ?thesis using tts_fields [OF tts_of_face(6)] assms(1) by simp
next
  case (SocketState r)
  then show ?thesis using assms(1) by simp
next
  case (Message cmd)
  have "tts_of (handle ok cmd s) = tts_of s"
    using assms(2) Message by (auto simp: handle_def Let_def tts_of_face split: option.splits)
  from tts_fields [OF this] show ?thesis using Message assms(1) by simp
next
  case (UserSend str)
  have "tts_of (setEmotion ''thinking'' ((clear s)\<lparr>sent := sent (clear s) @ [str]\<rparr>)) =
        tts_of ((clear s)\<lparr>sent := sent (clear s) @ [str]\<rparr>)"
    by (rule tts_of_face(1))
  from tts_fields [OF this] show ?thesis
    using UserSend assms(1) clear_idle [of s] by (simp add: send_def Let_def)
next
  case (AudioPlaying a dur)
  have "tts_of (onPlaying a dur (upd_audio a (\<lambda>au. au\<lparr>playingArmed := False\<rparr>) s)) = tts_of s"
    by (simp add: tts_of_onPlaying tts_of_playingArmed)
  from tts_fields [OF this] show ?thesis using AudioPlaying assms(1) by simp
next
  case (AudioEnded a)
  have "queue (upd_audio a (\<lambda>au. au\<lparr>endedArmed := False\<rparr>) s) = []"
    using assms(1) by (simp add: idle_fields)
  from onEnded_idle [OF this] show ?thesis using AudioEnded assms(1) by (simp add: idle_fields)
next
  case (AudioError a)
  have "queue (upd_audio a (\<lambda>au. au\<lparr>errorArmed := False\<rparr>) s) = []"
    using assms(1) by (simp add: idle_fields)
  from onEnded_idle [OF this] show ?thesis
    using AudioError assms(1) by (simp add: idle_fields onError_onEnded)
next
  case (PlayResolved a)
  then show ?thesis using assms(1) by (simp add: idle_fields)
next
  case (PlayRejected a)
  have "queue (upd_audio a (\<lambda>au. au\<lparr>playPending := False\<rparr>) s) = []"
    using assms(1) by (simp add: idle_fields)
  from onEnded_idle [OF this] show ?thesis
    using PlayRejected assms(1) by (simp add: idle_fields onPlayRejected_onEnded)
qed

lemma run_idle:
  "queue s = [] \<Longrightarrow> \<forall>e \<in> set es. \<not> enqueues e \<Longrightarrow>
   queue (run ok es s) = [] \<and> length (audios (run ok es s)) = length (audios s)"
proof (induction es arbitrary: s)
  case Nil
  then show ?case by simp
next
  case (Cons e es)
  have st: "queue (step ok e s) = [] \<and> length (audios (step ok e s)) = length (audios s)"
    using step_idle [OF Cons.prems(1), of e ok] Cons.prems(2) by simp
  show ?case using Cons.IH [of "step ok e s"] st Cons.prems(2) by simp
qed

text \<open>
  C3 (amended). \<^verbatim>\<open>clear()\<close>, called in any state, empties the queue, pauses the current
  element and forgets it, marks the player as not playing, sets the target of every lip
  shape to 0, ends the speaking state and empties the phoneme queue, and cancels the
  return-to-neutral timer the queue had scheduled (\<^verbatim>\<open>_neutralTimer\<close>). It leaves the
  expression layer as it is: the active expression, the expression targets and the live
  expression weights are unchanged. A second call changes nothing. No audio element is
  ever created for an item that \<^verbatim>\<open>clear()\<close> took out of the queue: through any events
  that follow, the late \<^verbatim>\<open>ended\<close>, \<^verbatim>\<open>error\<close> and rejection notifications of the aborted
  element included, the queue stays empty and no element is created until a new dialogue
  message with audio arrives; so there is no \<^verbatim>\<open>playing\<close> event for such an item.
\<close>

theorem clear_effect:
  "queue (clear s) = [] \<and> \<not> playing (clear s) \<and> currentAudio (clear s) = None \<and>
   (\<forall>a. currentAudio s = Some a \<and> a < length (audios s) \<longrightarrow> paused (audios (clear s) ! a)) \<and>
   length (audios (clear s)) = length (audios s) \<and>
   (\<forall>n \<in> set LIP_SHAPES. lipTarget (clear s) n = Some 0) \<and>
   \<not> speaking (clear s) \<and> phonQueue (clear s) = [] \<and>
   (\<forall>h. neutralTimer s = Some h \<longrightarrow> h \<notin> set (timers (clear s))) \<and>
   exprTarget (clear s) = exprTarget s \<and> exprCurrent (clear s) = exprCurrent s \<and>
   activeExpr (clear s) = activeExpr s \<and>
   clear (clear s) = clear s \<and>
   ((\<forall>e \<in> set es. \<not> enqueues e) \<longrightarrow>
      queue (run atob_ok es (clear s)) = [] \<and>
      length (audios (run atob_ok es (clear s))) = length (audios s))"
proof -
  have idem: "clear (clear s) = clear s"
    by (simp add: clear_eq zero_all_idem split: option.splits)
  have lips: "\<forall>n \<in> set LIP_SHAPES. lipTarget (clear s) n = Some 0"
    by (simp add: clear_eq zero_all_eq)
  have later: "(\<forall>e \<in> set es. \<not> enqueues e) \<longrightarrow>
      queue (run atob_ok es (clear s)) = [] \<and>
      length (audios (run atob_ok es (clear s))) = length (audios s)"
    using run_idle [of "clear s" es atob_ok] clear_idle [of s] by simp
  have rest: "queue (clear s) = [] \<and> \<not> playing (clear s) \<and> currentAudio (clear s) = None \<and>
   (\<forall>a. currentAudio s = Some a \<and> a < length (audios s) \<longrightarrow> paused (audios (clear s) ! a)) \<and>
   length (audios (clear s)) = length (audios s) \<and>
   \<not> speaking (clear s) \<and> phonQueue (clear s) = [] \<and>
   (\<forall>h. neutralTimer s = Some h \<longrightarrow> h \<notin> set (timers (clear s))) \<and>
   exprTarget (clear s) = exprTarget s \<and> exprCurrent (clear s) = exprCurrent s \<and>
   activeExpr (clear s) = activeExpr s"
    by (auto simp: clear_eq split: option.splits)
  show ?thesis using idem lips later rest by blast
qed

text \<open>
  \<^verbatim>\<open>clear()\<close> while the first item is loading and two more are queued; a frame, the
  rejection of the aborted \<^verbatim>\<open>play()\<close>, a late \<^verbatim>\<open>ended\<close> event and an emotion-only message
  follow.
\<close>

theorem clear_effect_witness:
  "currentAudio demo_loading = Some 0 \<and> (0 :: nat) < length (audios demo_loading) \<and>
   queue demo_loading = [demo_second, demo_third] \<and>
   paused (audios (clear demo_loading) ! 0) \<and>
   ''aa'' \<in> set LIP_SHAPES \<and> lipTarget (clear demo_loading) ''aa'' = Some 0 \<and>
   \<not> enqueues (Frame 0.016 0.5 0.5) \<and> \<not> enqueues (PlayRejected 0) \<and>
   \<not> enqueues (AudioEnded 0) \<and> \<not> enqueues (Message demo_msg_emotion) \<and>
   queue (run demo_ok [Frame 0.016 0.5 0.5, PlayRejected 0, AudioEnded 0, Message demo_msg_emotion]
            (clear demo_loading)) = [] \<and>
   length (audios
     (run demo_ok [Frame 0.016 0.5 0.5, PlayRejected 0, AudioEnded 0, Message demo_msg_emotion]
        (clear demo_loading))) = length (audios demo_loading)"
proof -
  note th = clear_effect [where s = demo_loading and atob_ok = demo_ok
      and es = "[Frame 0.016 0.5 0.5, PlayRejected 0, AudioEnded 0, Message demo_msg_emotion]"]
  have cur: "currentAudio demo_loading = Some 0 \<and> (0 :: nat) < length (audios demo_loading) \<and>
             queue demo_loading = [demo_second, demo_third]"
    using demo_loading_eq by simp
  have aa: "''aa'' \<in> set LIP_SHAPES" by (simp add: LIP_SHAPES_def)
  have e: "\<not> enqueues (Frame 0.016 0.5 0.5)" "\<not> enqueues (PlayRejected 0)"
    "\<not> enqueues (AudioEnded 0)" "\<not> enqueues (Message demo_msg_emotion)"
    by (simp_all add: demo_msg_emotion_def truthy_def)
  have ev: "\<forall>e \<in> set [Frame 0.016 0.5 0.5, PlayRejected 0, AudioEnded 0, Message demo_msg_emotion].
              \<not> enqueues e"
    using e by simp
  show ?thesis using th cur aa e ev by blast
qed

text \<open>
  The claim as stated fails in two places. \<^verbatim>\<open>clear()\<close> does not reset the expression
  state: called while the happy line of the sample session plays, it leaves happy the
  active expression, with target 1, and neutral at target 0. And the \<^verbatim>\<open>playing\<close> listener
  of the aborted element stays registered: when \<^verbatim>\<open>clear()\<close> is called while the first
  item is loading and the \<^verbatim>\<open>playing\<close> event of its element is delivered afterwards, the
  listener makes happy the active expression and starts the lip sync of the discarded
  line.
\<close>

theorem clear_leaves_effects_counterexample:
  "activeExpr (clear demo_playing) = ''happy'' \<and>
   exprTarget (clear demo_playing) ''happy'' = Some 1 \<and>
   exprTarget (clear demo_playing) ''neutral'' = Some 0 \<and>
   currentAudio demo_loading_one = Some 0 \<and>
   activeExpr (clear demo_loading_one) = ''neutral'' \<and> \<not> speaking (clear demo_loading_one) \<and>
   activeExpr (step demo_ok (AudioPlaying 0 (Num 1.2)) (clear demo_loading_one)) = ''happy'' \<and>
   speaking (step demo_ok (AudioPlaying 0 (Num 1.2)) (clear demo_loading_one))"
  by (simp add: demo_loading_one_def demo_defs op_defs ev_defs clear_def zero_all_def allNames_def)

end
